theory Spec2Isabelle
  imports Main "HOL-Library.Word" "HOL-Library.Sublist"
begin

section \<open>JavaScript strings and values\<close>

text \<open>
  A JavaScript string is a sequence of 16-bit code units. \<open>js\<close> turns an ASCII literal
  into such a string.
\<close>

type_synonym jsstring = "16 word list"

definition js :: "string \<Rightarrow> jsstring" where
  "js s = map (\<lambda>c. of_nat (of_char c)) s"

definition colon :: "16 word" where
  "colon = 0x3A"

definition dollar :: "16 word" where
  "dollar = 0x24"

text \<open>
  The values that flow through the client as \<open>any\<close>: parameters, query values, request
  bodies and parsed JSON. \<open>JNum n\<close> is the number \<open>n\<close>; only integers in the safe
  range are represented, which print in plain decimal.
\<close>

datatype jsvalue =
    JUndefined
  | JNull
  | JBool bool
  | JNum int
  | JStr jsstring
  | JArr "jsvalue list"
  | JObj "(jsstring \<times> jsvalue) list"

fun digits :: "nat \<Rightarrow> jsstring" where
  "digits n = (if n < 10 then [of_nat (48 + n)] else digits (n div 10) @ [of_nat (48 + n mod 10)])"

text \<open>\<open>Array.prototype.join\<close> on strings.\<close>

fun join :: "jsstring \<Rightarrow> jsstring list \<Rightarrow> jsstring" where
  "join sep [] = []"
| "join sep [s] = s"
| "join sep (s # t # r) = s @ sep @ join sep (t # r)"

text \<open>\<open>String(value)\<close>.\<close>

fun ToString :: "jsvalue \<Rightarrow> jsstring" where
  "ToString JUndefined = js ''undefined''"
| "ToString JNull = js ''null''"
| "ToString (JBool b) = (if b then js ''true'' else js ''false'')"
| "ToString (JNum n) = (if n < 0 then js ''-'' @ digits (nat (- n)) else digits (nat n))"
| "ToString (JStr s) = s"
| "ToString (JArr xs) =
     join (js '','') (map (\<lambda>x. if x = JUndefined \<or> x = JNull then [] else ToString x) xs)"
| "ToString (JObj _) = js ''[object Object]''"

text \<open>Truthiness, as tested by \<open>if (body && ...)\<close>.\<close>

fun truthy :: "jsvalue \<Rightarrow> bool" where
  "truthy JUndefined = False"
| "truthy JNull = False"
| "truthy (JBool b) = b"
| "truthy (JNum n) = (n \<noteq> 0)"
| "truthy (JStr s) = (s \<noteq> [])"
| "truthy (JArr _) = True"
| "truthy (JObj _) = True"

section \<open>Responses and thrown values\<close>

text \<open>
  A response as the client sees it: the status, whether \<open>response.body\<close> is non-null,
  what \<open>response.json()\<close> yields on an unread body (\<open>None\<close>: the body is not JSON), and
  whether the body has been read already.
\<close>

record http_response =
  status :: nat
  hasBody :: bool
  jsonBody :: "jsvalue option"
  bodyUsed :: bool

text \<open>
  Everything the code throws or rejects with. \<open>APIError message status response\<close> and
  \<open>AuthError message\<close> are the two classes of the source (\<open>AuthError\<close> extends
  \<open>APIError\<close> with status 401 and no response); \<open>HTTPError\<close> is ky's, with the response
  it carries; \<open>ZodError\<close> is what a schema's \<open>parse\<close> throws; the others are built-in
  errors. \<open>NonError\<close> is a thrown value that is not an \<open>Error\<close> instance. The message of
  an \<open>APIError\<close> or \<open>HTTPError\<close> is a value, since the code assigns it from parsed JSON
  without converting it.
\<close>

datatype thrown =
    APIError jsvalue nat "jsvalue option"
  | AuthError jsstring
  | HTTPError jsvalue http_response
  | ZodError jsstring
  | URIError jsstring
  | TypeError jsstring
  | SyntaxError jsstring
  | NonError jsvalue

text \<open>The \<open>status\<close> field of an \<open>APIError\<close> (and so of an \<open>AuthError\<close>).\<close>

fun error_status :: "thrown \<Rightarrow> nat option" where
  "error_status (APIError _ st _) = Some st"
| "error_status (AuthError _) = Some 401"
| "error_status _ = None"

text \<open>\<open>error instanceof Error ? error.message : ...\<close>: the message of an \<open>Error\<close> instance.\<close>

fun error_message :: "thrown \<Rightarrow> jsvalue option" where
  "error_message (APIError m _ _) = Some m"
| "error_message (AuthError m) = Some (JStr m)"
| "error_message (HTTPError m _) = Some m"
| "error_message (ZodError m) = Some (JStr m)"
| "error_message (URIError m) = Some (JStr m)"
| "error_message (TypeError m) = Some (JStr m)"
| "error_message (SyntaxError m) = Some (JStr m)"
| "error_message (NonError _) = None"

text \<open>
  Reading a property of a value: \<open>undefined\<close> and \<open>null\<close> have none (\<open>TypeError\<close>), an
  object has its entries, and the property is \<open>undefined\<close> on anything else.
\<close>

fun get_prop :: "jsvalue \<Rightarrow> jsstring \<Rightarrow> thrown + jsvalue" where
  "get_prop JUndefined name = Inl (TypeError (js ''Cannot read properties of undefined''))"
| "get_prop JNull name = Inl (TypeError (js ''Cannot read properties of null''))"
| "get_prop (JObj kvs) name = Inr (case map_of kvs name of None \<Rightarrow> JUndefined | Some v \<Rightarrow> v)"
| "get_prop _ name = Inr JUndefined"

text \<open>
  \<open>response.json()\<close>: fails on a body already read, on no body and on a body that is not
  JSON; otherwise it yields the parsed value and marks the body as read.
\<close>

definition response_json :: "http_response \<Rightarrow> (thrown + jsvalue) \<times> http_response" where
  "response_json r =
     (if bodyUsed r then (Inl (TypeError (js ''body stream already read'')), r)
      else if \<not> hasBody r then (Inl (SyntaxError (js ''Unexpected end of JSON input'')), r)
      else
        (case jsonBody r of
           None \<Rightarrow> (Inl (SyntaxError (js ''Unexpected token'')), r\<lparr>bodyUsed := True\<rparr>)
         | Some v \<Rightarrow> (Inr v, r\<lparr>bodyUsed := True\<rparr>)))"

section \<open>String.prototype.replace with a string pattern\<close>

text \<open>
  \<open>split_first pat s\<close> finds the first occurrence of \<open>pat\<close> in \<open>s\<close> (as \<open>indexOf\<close>
  does) and returns what precedes and what follows it.
\<close>

fun split_first :: "'a list \<Rightarrow> 'a list \<Rightarrow> ('a list \<times> 'a list) option" where
  "split_first pat [] = (if pat = [] then Some ([], []) else None)"
| "split_first pat (c # cs) =
     (if prefix pat (c # cs) then Some ([], drop (length pat) (c # cs))
      else map_option (\<lambda>(p, f). (c # p, f)) (split_first pat cs))"

text \<open>
  The replacement text is a template: \<open>$$\<close> stands for a dollar sign, \<open>$&\<close> for the
  matched text, \<open>$`\<close> for what precedes the match and \<open>$'\<close> for what follows it. A string
  pattern has no capture groups, so every other \<open>$\<close> is literal.
\<close>

fun GetSubstitution :: "jsstring \<Rightarrow> jsstring \<Rightarrow> jsstring \<Rightarrow> jsstring \<Rightarrow> jsstring" where
  "GetSubstitution m p f [] = []"
| "GetSubstitution m p f [c] = [c]"
| "GetSubstitution m p f (c # d # r) =
     (if c = dollar then
        (if d = dollar then dollar # GetSubstitution m p f r
         else if d = 0x60 then p @ GetSubstitution m p f r
         else if d = 0x26 then m @ GetSubstitution m p f r
         else if d = 0x27 then f @ GetSubstitution m p f r
         else c # GetSubstitution m p f (d # r))
      else c # GetSubstitution m p f (d # r))"

definition replace_str :: "jsstring \<Rightarrow> jsstring \<Rightarrow> jsstring \<Rightarrow> jsstring" where
  "replace_str s pat rep =
     (case split_first pat s of
        None \<Rightarrow> s
      | Some (p, f) \<Rightarrow> p @ GetSubstitution pat p f rep @ f)"

section \<open>encodeURIComponent\<close>

definition uriUnreserved :: "16 word \<Rightarrow> bool" where
  "uriUnreserved c \<longleftrightarrow>
     (0x41 \<le> c \<and> c \<le> 0x5A) \<or> (0x61 \<le> c \<and> c \<le> 0x7A) \<or> (0x30 \<le> c \<and> c \<le> 0x39) \<or>
     c \<in> set (js ''-_.!~*'()'')"

definition isLead :: "16 word \<Rightarrow> bool" where
  "isLead c \<longleftrightarrow> 0xD800 \<le> c \<and> c \<le> 0xDBFF"

definition isTrail :: "16 word \<Rightarrow> bool" where
  "isTrail c \<longleftrightarrow> 0xDC00 \<le> c \<and> c \<le> 0xDFFF"

definition surrogatePair :: "16 word \<Rightarrow> 16 word \<Rightarrow> nat" where
  "surrogatePair l t = (unat l - 0xD800) * 0x400 + (unat t - 0xDC00) + 0x10000"

definition utf8 :: "nat \<Rightarrow> nat list" where
  "utf8 cp =
     (if cp < 0x80 then [cp]
      else if cp < 0x800 then [0xC0 + cp div 64, 0x80 + cp mod 64]
      else if cp < 0x10000 then
        [0xE0 + cp div 4096, 0x80 + (cp div 64) mod 64, 0x80 + cp mod 64]
      else
        [0xF0 + cp div 262144, 0x80 + (cp div 4096) mod 64, 0x80 + (cp div 64) mod 64,
         0x80 + cp mod 64])"

definition hexDigit :: "nat \<Rightarrow> 16 word" where
  "hexDigit n = (if n < 10 then of_nat (0x30 + n) else of_nat (0x41 + (n - 10)))"

definition percentOctet :: "nat \<Rightarrow> jsstring" where
  "percentOctet b = [0x25, hexDigit (b div 16 mod 16), hexDigit (b mod 16)]"

definition percentCodePoint :: "nat \<Rightarrow> jsstring" where
  "percentCodePoint cp = concat (map percentOctet (utf8 cp))"

text \<open>
  The \<open>Encode\<close> operation of the language: unreserved code units are kept, every other
  code point is written as the percent-escaped octets of its UTF-8 form, and a lone
  surrogate raises \<open>URIError\<close>.
\<close>

definition uriMalformed :: thrown where
  "uriMalformed = URIError (js ''URI malformed'')"

fun Encode :: "jsstring \<Rightarrow> thrown + jsstring" where
  "Encode [] = Inr []"
| "Encode (c # cs) =
     (if uriUnreserved c then map_sum id ((#) c) (Encode cs)
      else if isTrail c then Inl uriMalformed
      else if isLead c then
        (case cs of
           [] \<Rightarrow> Inl uriMalformed
         | d # ds \<Rightarrow>
             if isTrail d
             then map_sum id ((@) (percentCodePoint (surrogatePair c d))) (Encode ds)
             else Inl uriMalformed)
      else map_sum id ((@) (percentCodePoint (unat c))) (Encode cs))"

definition encodeURIComponent :: "jsstring \<Rightarrow> thrown + jsstring" where
  "encodeURIComponent s = Encode s"

section \<open>APIClient.buildPath\<close>

text \<open>
  An object of type \<open>Record<string, any>\<close> is the list of its entries, in the order
  \<open>Object.entries\<close> gives them; an absent (\<open>undefined\<close>) argument is \<open>None\<close>.
\<close>

type_synonym jsrecord = "(jsstring \<times> jsvalue) list"

fun buildPath_entries :: "jsrecord \<Rightarrow> jsstring \<Rightarrow> thrown + jsstring" where
  "buildPath_entries [] finalPath = Inr finalPath"
| "buildPath_entries ((key, v) # rest) finalPath =
     (case encodeURIComponent (ToString v) of
        Inl e \<Rightarrow> Inl e
      | Inr enc \<Rightarrow> buildPath_entries rest (replace_str finalPath (colon # key) enc))"

definition buildPath :: "jsstring \<Rightarrow> jsrecord option \<Rightarrow> thrown + jsstring" where
  "buildPath path params =
     (case params of
        None \<Rightarrow> Inr path
      | Some ps \<Rightarrow> buildPath_entries ps path)"

section \<open>Path templates\<close>

text \<open>
  A description of a path template for stating what \<open>buildPath\<close> computes: literal
  pieces and placeholders \<open>:name\<close>. \<open>render\<close> is the template as written in an
  endpoint definition, \<open>fill\<close> the same template with some placeholders substituted.
  \<open>template_ok K\<close> holds of a template whose placeholders are pairwise distinct, where a
  literal contains no colon, every placeholder is followed by the end of the path or by a
  literal starting with a character that occurs in no key of \<open>K\<close>, and no key of \<open>K\<close> is
  a proper prefix of a placeholder's name.
\<close>

datatype segment = Lit jsstring | Param jsstring

fun render_segment :: "segment \<Rightarrow> jsstring" where
  "render_segment (Lit s) = s"
| "render_segment (Param n) = colon # n"

definition render :: "segment list \<Rightarrow> jsstring" where
  "render segs = concat (map render_segment segs)"

fun fill_segment :: "(jsstring \<rightharpoonup> jsstring) \<Rightarrow> segment \<Rightarrow> jsstring" where
  "fill_segment env (Lit s) = s"
| "fill_segment env (Param n) = (case env n of None \<Rightarrow> colon # n | Some e \<Rightarrow> e)"

definition fill :: "(jsstring \<rightharpoonup> jsstring) \<Rightarrow> segment list \<Rightarrow> jsstring" where
  "fill env segs = concat (map (fill_segment env) segs)"

fun template_ok :: "jsstring set \<Rightarrow> segment list \<Rightarrow> bool" where
  "template_ok K [] = True"
| "template_ok K (Lit s # ts) = (colon \<notin> set s \<and> template_ok K ts)"
| "template_ok K (Param n # ts) =
     (colon \<notin> set n \<and> (\<forall>k\<in>K. k \<noteq> n \<longrightarrow> \<not> prefix k n) \<and> Param n \<notin> set ts \<and>
      (case ts of
         [] \<Rightarrow> True
       | Lit s # _ \<Rightarrow> s \<noteq> [] \<and> (\<forall>k\<in>K. hd s \<notin> set k)
       | Param _ # _ \<Rightarrow> False) \<and>
      template_ok K ts)"

definition param_env :: "jsrecord \<Rightarrow> (jsstring \<rightharpoonup> jsstring)" where
  "param_env ps n =
     (case map_of ps n of
        None \<Rightarrow> None
      | Some v \<Rightarrow> (case encodeURIComponent (ToString v) of Inl _ \<Rightarrow> None | Inr e \<Rightarrow> Some e))"

section \<open>The endpoint registry\<close>

datatype HTTPMethod = GET | POST | PUT | PATCH | DELETE

text \<open>
  A schema is used through \<open>parse\<close> only: it returns the validated value or throws a
  \<open>ZodError\<close>, here \<open>Inl\<close> of its message.
\<close>

type_synonym schema = "jsvalue \<Rightarrow> jsstring + jsvalue"

text \<open>
  The interface \<open>APIEndpoint\<close>. It declares \<open>response\<close> as required, but \<open>request\<close> tests
  it at run time (\<open>if (endpoint.response)\<close>), so it is optional here like the other
  schemas. The types of \<open>path\<close> and \<open>method\<close> are left open: at the declared types an
  endpoint has both (\<open>APIEndpoint\<close>); at run time nothing checks an entry of a registry
  before it is used, and either may be missing (\<open>RegistryEntry\<close>).
\<close>

record ('p, 'm) Endpoint =
  path :: 'p
  "method" :: 'm
  baseUrl :: "jsstring option"
  params :: "schema option"
  query :: "schema option"
  body :: "schema option"
  response :: "schema option"
  tags :: "jsstring list option"
  description :: "jsstring option"

type_synonym APIEndpoint = "(jsstring, HTTPMethod) Endpoint"

type_synonym RegistryEntry = "(jsstring option, HTTPMethod option) Endpoint"

text \<open>An endpoint of the declared type, as an entry of a registry.\<close>

definition as_entry :: "APIEndpoint \<Rightarrow> RegistryEntry" where
  "as_entry e =
     \<lparr> path = Some (path e), method = Some (method e), baseUrl = Endpoint.baseUrl e,
       params = params e, query = query e, body = body e, response = response e,
       tags = tags e, description = description e \<rparr>"

text \<open>
  The registry as it is at run time: the interface requires \<open>endpoints\<close> and every entry
  to be an endpoint, but \<open>endpoints\<close> may be missing (\<open>None\<close>) and the value stored under
  a name may be \<open>null\<close> or \<open>undefined\<close> (\<open>None\<close>). The entries are in the order of
  \<open>Object.entries\<close>.
\<close>

record APIConfig =
  baseUrl :: "jsstring option"
  endpoints :: "(jsstring \<times> RegistryEntry option) list option"


definition defineEndpoint :: "APIEndpoint \<Rightarrow> APIEndpoint" where
  "defineEndpoint e = e"

definition defineEndpoints ::
  "(jsstring \<times> RegistryEntry option) list \<Rightarrow> (jsstring \<times> RegistryEntry option) list" where
  "defineEndpoints es = es"

section \<open>Authentication callbacks and the outside world\<close>

text \<open>
  The callbacks act on state outside the client (a token store, the user interface), of
  type \<open>'s\<close>. \<open>getTokens\<close> resolves to tokens or \<open>null\<close>, or rejects; \<open>onRefreshToken\<close>
  returns a promise that settles later, fulfilled (\<open>None\<close>) or rejected; \<open>onAuthError\<close>
  is a notification that returns normally.
\<close>

record AuthTokens =
  accessToken :: jsstring
  refreshToken :: "jsstring option"

record 's AuthCallbacks =
  getTokens :: "'s \<Rightarrow> thrown + AuthTokens option"
  onAuthError :: "('s \<Rightarrow> 's) option"
  onRefreshToken :: "('s \<Rightarrow> thrown option \<times> 's) option"

text \<open>
  What the transport is given and what it answers: a response, or no response at all
  (\<open>fetch\<close> rejects with a \<open>TypeError\<close>).
\<close>

record http_request =
  req_prefixUrl :: "jsstring option"
  req_input :: jsstring
  req_method :: HTTPMethod
  req_headers :: "(jsstring \<times> jsstring) list"
  req_searchParams :: "(jsstring \<times> jsstring) list option"
  req_json :: "jsvalue option"

datatype fetch_result = NoResponse jsstring | Response http_response

text \<open>
  The environment of a call: the server behind \<open>fetch\<close>, and what waiting for a refresh
  that another call has in flight yields (its outcome, and the outside state by then).
\<close>

record 's env =
  fetch :: "http_request \<Rightarrow> 's \<Rightarrow> fetch_result \<times> 's"
  inflight :: "'s \<Rightarrow> thrown option \<times> 's"

text \<open>The observable effects of the client, in the order they happen.\<close>

datatype event = Fetched http_request | RefreshInvoked | AuthErrorInvoked

datatype pstate = Pending | Fulfilled | Rejected thrown

text \<open>
  The world a call runs in: the outside state, the effects so far, and the promises
  created by \<open>refreshTokens\<close>, each known by its index.
\<close>

record 's world =
  ext :: 's
  trace :: "event list"
  promises :: "pstate list"

section \<open>The ky instance\<close>

text \<open>
  What \<open>ky.create\<close> is given. \<open>hooks\<close> is the identity of the hooks object: the
  constructor of a client builds one hooks object, whose closures read and write that
  client.
\<close>

record ky_instance =
  prefixUrl :: "jsstring option"
  headers :: "(jsstring \<times> jsstring) list"
  retry_limit :: nat
  retry_methods :: "HTTPMethod list"
  retry_statusCodes :: "nat list"
  hooks :: nat

record ky_options =
  opt_method :: HTTPMethod
  opt_searchParams :: "(jsstring \<times> jsstring) list option"
  opt_json :: "jsvalue option"

section \<open>APIClient\<close>

record 's APIClient =
  client :: ky_instance
  isRefreshing :: bool
  refreshPromise :: "nat option"
  hooks :: nat
  config :: APIConfig
  authCallbacks :: "'s AuthCallbacks option"

definition ky_create :: "jsstring option \<Rightarrow> nat \<Rightarrow> ky_instance" where
  "ky_create url h =
     \<lparr> prefixUrl = url,
       headers = [(js ''Content-Type'', js ''application/json'')],
       retry_limit = 2,
       retry_methods = [GET, POST, PUT, DELETE, PATCH],
       retry_statusCodes = [401],
       hooks = h \<rparr>"

text \<open>The constructor; \<open>h\<close> is the identity of the hooks object it creates.\<close>

definition new_APIClient :: "APIConfig \<Rightarrow> 's AuthCallbacks option \<Rightarrow> nat \<Rightarrow> 's APIClient" where
  "new_APIClient cfg cbs h =
     \<lparr> client = ky_create (APIConfig.baseUrl cfg) h,
       isRefreshing = False,
       refreshPromise = None,
       hooks = h,
       config = cfg,
       authCallbacks = cbs \<rparr>"

definition updateAuthCallbacks :: "'s AuthCallbacks \<Rightarrow> 's APIClient \<Rightarrow> 's APIClient" where
  "updateAuthCallbacks cbs c = c\<lparr>authCallbacks := Some cbs\<rparr>"

subsection \<open>The hooks\<close>

definition set_header ::
  "jsstring \<Rightarrow> jsstring \<Rightarrow> (jsstring \<times> jsstring) list \<Rightarrow> (jsstring \<times> jsstring) list" where
  "set_header name v hs =
     (if name \<in> fst ` set hs then map (\<lambda>(n, x). if n = name then (n, v) else (n, x)) hs
      else hs @ [(name, v)])"

text \<open>\<open>if (tokens?.accessToken) request.headers.set("Authorization", ...)\<close>.\<close>

definition attach_token :: "AuthTokens option \<Rightarrow> http_request \<Rightarrow> http_request" where
  "attach_token tokens request =
     (case tokens of
        None \<Rightarrow> request
      | Some t \<Rightarrow>
          if accessToken t \<noteq> []
          then request\<lparr>req_headers :=
                 set_header (js ''Authorization'') (js ''Bearer '' @ accessToken t) (req_headers request)\<rparr>
          else request)"

definition beforeRequest :: "'s APIClient \<Rightarrow> 's \<Rightarrow> http_request \<Rightarrow> thrown + http_request" where
  "beforeRequest c s request =
     (case authCallbacks c of
        None \<Rightarrow> Inr request
      | Some cbs \<Rightarrow>
          (case getTokens cbs s of
             Inl e \<Rightarrow> Inl e
           | Inr tokens \<Rightarrow> Inr (attach_token tokens request)))"

text \<open>
  \<open>beforeError\<close> rewrites the message of an \<open>HTTPError\<close> from the body of its response,
  which it reads.
\<close>

definition beforeError :: "jsvalue \<Rightarrow> http_response \<Rightarrow> thrown" where
  "beforeError message r =
     (if hasBody r then
        (case response_json r of
           (Inl _, r') \<Rightarrow> HTTPError message r'
         | (Inr b, r') \<Rightarrow>
             (case get_prop b (js ''message'') of
                Inl _ \<Rightarrow> HTTPError message r'
              | Inr m \<Rightarrow>
                  HTTPError (if truthy m then m else JStr (js ''HTTP '' @ digits (status r))) r'))
      else HTTPError message r)"

definition notify_authError :: "'s APIClient \<Rightarrow> 's world \<Rightarrow> 's world" where
  "notify_authError c w =
     (case authCallbacks c of
        None \<Rightarrow> w
      | Some cbs \<Rightarrow>
          (case onAuthError cbs of
             None \<Rightarrow> w
           | Some f \<Rightarrow> w\<lparr>ext := f (ext w), trace := trace w @ [AuthErrorInvoked]\<rparr>))"

definition authFailed :: thrown where
  "authFailed = AuthError (js ''Authentication failed'')"

subsection \<open>refreshTokens\<close>

text \<open>
  The synchronous part of \<open>refreshTokens\<close>, up to the \<open>await\<close> inside the inner async
  function. It returns what the caller then awaits (an error it is rejected with at
  once, or the promise it follows), the client and the promises afterwards, and the
  \<open>onRefreshToken\<close> callback if this call invoked it. Without an \<open>onRefreshToken\<close> the
  inner function throws before any \<open>await\<close>: its \<open>finally\<close> block runs first and the
  assignment of the (rejected) promise to \<open>refreshPromise\<close> after it.
\<close>

definition refreshTokens ::
  "'s APIClient \<Rightarrow> pstate list \<Rightarrow>
   (thrown + nat) \<times> 's APIClient \<times> pstate list \<times> ('s \<Rightarrow> thrown option \<times> 's) option" where
  "refreshTokens c ps =
     (case authCallbacks c of
        None \<Rightarrow> (Inl (AuthError (js ''No auth callbacks provided'')), c, ps, None)
      | Some cbs \<Rightarrow>
          (case (if isRefreshing c then refreshPromise c else None) of
             Some shared \<Rightarrow> (Inr shared, c, ps, None)
           | None \<Rightarrow>
               (let c1 = c\<lparr>isRefreshing := True\<rparr>; p = length ps in
                case onRefreshToken cbs of
                  Some run \<Rightarrow> (Inr p, c1\<lparr>refreshPromise := Some p\<rparr>, ps @ [Pending], Some run)
                | None \<Rightarrow>
                    (Inr p,
                     c1\<lparr>isRefreshing := False, refreshPromise := None\<rparr>\<lparr>refreshPromise := Some p\<rparr>,
                     ps @ [Rejected (AuthError (js ''No refresh token handler provided''))],
                     None))))"

text \<open>
  The rest of the inner function, run when the promise of \<open>onRefreshToken\<close> settles: the
  \<open>finally\<close> block clears the refresh state, and promise \<open>p\<close> settles the same way.
\<close>

definition settle_refresh ::
  "nat \<Rightarrow> thrown option \<Rightarrow> 's APIClient \<Rightarrow> pstate list \<Rightarrow> 's APIClient \<times> pstate list" where
  "settle_refresh p outcome c ps =
     (c\<lparr>isRefreshing := False, refreshPromise := None\<rparr>,
      ps[p := (case outcome of None \<Rightarrow> Fulfilled | Some e \<Rightarrow> Rejected e)])"

definition promise_state :: "pstate list \<Rightarrow> nat \<Rightarrow> pstate" where
  "promise_state ps p = (if p < length ps then ps ! p else Pending)"

text \<open>
  \<open>await this.refreshTokens()\<close> within one call that runs to its end: a refresh this call
  started runs \<open>onRefreshToken\<close> and settles; one in flight for another call settles as the
  environment says.
\<close>

definition await_refreshTokens ::
  "'s env \<Rightarrow> 's APIClient \<Rightarrow> 's world \<Rightarrow> thrown option \<times> 's APIClient \<times> 's world" where
  "await_refreshTokens en c w =
     (case refreshTokens c (promises w) of
        (Inl e, c1, ps1, _) \<Rightarrow> (Some e, c1, w\<lparr>promises := ps1\<rparr>)
      | (Inr p, c1, ps1, Some run) \<Rightarrow>
          (let (outcome, s') = run (ext w);
               (c2, ps2) = settle_refresh p outcome c1 ps1
           in (outcome, c2, w\<lparr>ext := s', trace := trace w @ [RefreshInvoked], promises := ps2\<rparr>))
      | (Inr p, c1, ps1, None) \<Rightarrow>
          (case promise_state ps1 p of
             Fulfilled \<Rightarrow> (None, c1, w\<lparr>promises := ps1\<rparr>)
           | Rejected e \<Rightarrow> (Some e, c1, w\<lparr>promises := ps1\<rparr>)
           | Pending \<Rightarrow>
               (let (outcome, s') = inflight en (ext w);
                    (c2, ps2) = settle_refresh p outcome c1 ps1
                in (outcome, c2, w\<lparr>ext := s', promises := ps2\<rparr>))))"

subsection \<open>beforeRetry\<close>

definition beforeRetry ::
  "'s env \<Rightarrow> http_request \<Rightarrow> thrown \<Rightarrow> nat \<Rightarrow> 's APIClient \<Rightarrow> 's world \<Rightarrow>
   (thrown + http_request) \<times> 's APIClient \<times> 's world" where
  "beforeRetry en request error retryCount c w =
     (case error of
        HTTPError _ r \<Rightarrow>
          if status r = 401 then
            (case (if retryCount = 1 then authCallbacks c else None) of
               Some cbs \<Rightarrow>
                 (case await_refreshTokens en c w of
                    (Some refreshError, c', w') \<Rightarrow> (Inl authFailed, c', notify_authError c' w')
                  | (None, c', w') \<Rightarrow>
                      (case getTokens cbs (ext w') of
                         Inl e \<Rightarrow> (Inl authFailed, c', notify_authError c' w')
                       | Inr tokens \<Rightarrow> (Inr (attach_token tokens request), c', w')))
             | None \<Rightarrow> (Inl authFailed, c, notify_authError c w))
          else (Inr request, c, w)
      | _ \<Rightarrow> (Inr request, c, w))"

subsection \<open>A call through ky\<close>

text \<open>
  ky is not part of the repository; what follows is the part of its behaviour that the
  configuration of the client relies on. One attempt runs the \<open>beforeRequest\<close> hook and
  \<open>fetch\<close>; a response outside 200..299 becomes an \<open>HTTPError\<close>, passed through
  \<open>beforeError\<close>. After a failed attempt the retry count is incremented; the error is
  thrown when the count exceeds the limit or when it is an \<open>HTTPError\<close> whose status is
  not in \<open>statusCodes\<close>; otherwise the \<open>beforeRetry\<close> hook runs with the new count and,
  unless it throws, the request is attempted again. The request object, with the headers
  the hooks have set, is the same in every attempt; a response arrives with its body
  unread. The delay between attempts and timeouts are not modelled, and neither is the
  way ky joins the prefix URL and the input. The hooks of every instance created by a
  client act on that client.
\<close>

definition ky_message :: "http_response \<Rightarrow> jsvalue" where
  "ky_message r = JStr (js ''Request failed with status code '' @ digits (status r))"

definition ky_function ::
  "'s env \<Rightarrow> http_request \<Rightarrow> 's APIClient \<Rightarrow> 's world \<Rightarrow>
   (thrown + http_response) \<times> http_request \<times> 's world" where
  "ky_function en request c w =
     (case beforeRequest c (ext w) request of
        Inl e \<Rightarrow> (Inl e, request, w)
      | Inr request' \<Rightarrow>
          (case fetch en request' (ext w) of
             (NoResponse m, s') \<Rightarrow>
               (Inl (TypeError m), request', w\<lparr>ext := s', trace := trace w @ [Fetched request']\<rparr>)
           | (Response r0, s') \<Rightarrow>
               (let r = r0\<lparr>bodyUsed := False\<rparr>;
                    w' = w\<lparr>ext := s', trace := trace w @ [Fetched request']\<rparr>
                in if 200 \<le> status r \<and> status r \<le> 299 then (Inr r, request', w')
                   else (Inl (beforeError (ky_message r) r), request', w'))))"

definition gives_up :: "ky_instance \<Rightarrow> nat \<Rightarrow> thrown \<Rightarrow> bool" where
  "gives_up k retryCount error \<longleftrightarrow>
     retryCount > retry_limit k \<or>
     (case error of HTTPError _ r \<Rightarrow> status r \<notin> set (retry_statusCodes k) | _ \<Rightarrow> False)"

function ky_retry ::
  "'s env \<Rightarrow> ky_instance \<Rightarrow> nat \<Rightarrow> http_request \<Rightarrow> 's APIClient \<Rightarrow> 's world \<Rightarrow>
   (thrown + http_response) \<times> 's APIClient \<times> 's world" where
  "ky_retry en k retryCount request c w =
     (case ky_function en request c w of
        (Inr r, request', w') \<Rightarrow> (Inr r, c, w')
      | (Inl error, request', w') \<Rightarrow>
          if gives_up k (retryCount + 1) error then (Inl error, c, w')
          else
            (case beforeRetry en request' error (retryCount + 1) c w' of
               (Inl e, c', w'') \<Rightarrow> (Inl e, c', w'')
             | (Inr request'', c', w'') \<Rightarrow> ky_retry en k (retryCount + 1) request'' c' w''))"
  by pat_completeness auto
termination
  by (relation "measure (\<lambda>(en, k, retryCount, request, c, w). retry_limit k + 1 - retryCount)")
     (auto simp: gives_up_def)

declare ky_retry.simps [simp del]

definition ky_request :: "ky_instance \<Rightarrow> jsstring \<Rightarrow> ky_options \<Rightarrow> http_request" where
  "ky_request k input options =
     \<lparr> req_prefixUrl = prefixUrl k,
       req_input = input,
       req_method = opt_method options,
       req_headers = headers k,
       req_searchParams = opt_searchParams options,
       req_json = opt_json options \<rparr>"

definition ky_call ::
  "'s env \<Rightarrow> ky_instance \<Rightarrow> jsstring \<Rightarrow> ky_options \<Rightarrow> 's APIClient \<Rightarrow> 's world \<Rightarrow>
   (thrown + http_response) \<times> 's APIClient \<times> 's world" where
  "ky_call en k input options c w =
     (let request = ky_request k input options
      in if opt_method options \<in> set (retry_methods k) then ky_retry en k 0 request c w
         else (case ky_function en request c w of (res, _, w') \<Rightarrow> (res, c, w')))"

subsection \<open>URLSearchParams\<close>

text \<open>
  Names and values are scalar value strings (a lone surrogate becomes U+FFFD), serialised
  as \<open>name=value\<close> joined by \<open>&\<close>, in the form-urlencoded byte encoding.
\<close>

fun toUSV :: "jsstring \<Rightarrow> nat list" where
  "toUSV [] = []"
| "toUSV (c # cs) =
     (if isLead c then
        (case cs of
           [] \<Rightarrow> [0xFFFD]
         | d # ds \<Rightarrow> if isTrail d then surrogatePair c d # toUSV ds else 0xFFFD # toUSV (d # ds))
      else if isTrail c then 0xFFFD # toUSV cs
      else unat c # toUSV cs)"

definition formUnreserved :: "nat \<Rightarrow> bool" where
  "formUnreserved b \<longleftrightarrow>
     (0x41 \<le> b \<and> b \<le> 0x5A) \<or> (0x61 \<le> b \<and> b \<le> 0x7A) \<or> (0x30 \<le> b \<and> b \<le> 0x39) \<or>
     b \<in> {0x2A, 0x2D, 0x2E, 0x5F}"

definition formByte :: "nat \<Rightarrow> jsstring" where
  "formByte b =
     (if b = 0x20 then js ''+'' else if formUnreserved b then [of_nat b] else percentOctet b)"

definition formEncode :: "jsstring \<Rightarrow> jsstring" where
  "formEncode s = concat (map formByte (concat (map utf8 (toUSV s))))"

definition URLSearchParams_toString :: "(jsstring \<times> jsstring) list \<Rightarrow> jsstring" where
  "URLSearchParams_toString sp =
     join (js ''&'') (map (\<lambda>(name, v). formEncode name @ js ''='' @ formEncode v) sp)"

subsection \<open>request\<close>

definition getEndpointBaseUrl :: "'s APIClient \<Rightarrow> APIEndpoint \<Rightarrow> jsstring option" where
  "getEndpointBaseUrl c endpoint =
     (case Endpoint.baseUrl endpoint of
        None \<Rightarrow> APIConfig.baseUrl (config c)
      | Some u \<Rightarrow> if u \<noteq> [] then Some u else APIConfig.baseUrl (config c))"

definition getClientForEndpoint :: "'s APIClient \<Rightarrow> APIEndpoint \<Rightarrow> ky_instance" where
  "getClientForEndpoint c endpoint =
     (let endpointBaseUrl = getEndpointBaseUrl c endpoint
      in if endpointBaseUrl = APIConfig.baseUrl (config c) then client c
         else ky_create endpointBaseUrl (APIClient.hooks c))"

text \<open>The search parameters that \<open>request\<close> puts in the options, if any.\<close>

definition request_searchParams :: "jsrecord option \<Rightarrow> (jsstring \<times> jsstring) list option" where
  "request_searchParams q =
     (case q of
        None \<Rightarrow> None
      | Some entries \<Rightarrow>
          if length entries > 0 then
            (let searchParams =
               map (\<lambda>(key, v). (key, ToString v))
                 (filter (\<lambda>(key, v). v \<noteq> JUndefined \<and> v \<noteq> JNull) entries)
             in if URLSearchParams_toString searchParams \<noteq> [] then Some searchParams else None)
          else None)"

text \<open>The \<open>json\<close> option: the body to send, if any, or the error of its validation.\<close>

definition request_json :: "APIEndpoint \<Rightarrow> jsvalue \<Rightarrow> thrown + jsvalue option" where
  "request_json endpoint b =
     (if truthy b \<and> method endpoint \<noteq> GET then
        (case body endpoint of
           Some sch \<Rightarrow>
             (case sch b of
                Inl m \<Rightarrow> Inl (ZodError m)
              | Inr validatedBody \<Rightarrow> Inr (Some validatedBody))
         | None \<Rightarrow> Inr (Some b))
      else Inr None)"

text \<open>The \<open>try\<close> block of \<open>request\<close>. An absent \<open>body\<close> argument is \<open>JUndefined\<close>.\<close>

definition request_options :: "APIEndpoint \<Rightarrow> jsrecord option \<Rightarrow> jsvalue option \<Rightarrow> ky_options" where
  "request_options endpoint q j =
     \<lparr>opt_method = method endpoint, opt_searchParams = request_searchParams q, opt_json = j\<rparr>"

definition request_try ::
  "'s env \<Rightarrow> APIEndpoint \<Rightarrow> jsrecord option \<Rightarrow> jsrecord option \<Rightarrow> jsvalue \<Rightarrow>
   's APIClient \<Rightarrow> 's world \<Rightarrow> (thrown + jsvalue) \<times> 's APIClient \<times> 's world" where
  "request_try en endpoint ps q b c w =
     (case buildPath (path endpoint) ps of
        Inl e \<Rightarrow> (Inl e, c, w)
      | Inr p \<Rightarrow>
          (let k = getClientForEndpoint c endpoint
           in case request_json endpoint b of
                Inl e \<Rightarrow> (Inl e, c, w)
              | Inr j \<Rightarrow>
                  (case ky_call en k p (request_options endpoint q j) c w of
                     (Inl e, c', w') \<Rightarrow> (Inl e, c', w')
                   | (Inr r, c', w') \<Rightarrow>
                       (case fst (response_json r) of
                          Inl e \<Rightarrow> (Inl e, c', w')
                        | Inr data \<Rightarrow>
                            (case response endpoint of
                               Some sch \<Rightarrow>
                                 (case sch data of
                                    Inl m \<Rightarrow> (Inl (ZodError m), c', w')
                                  | Inr v \<Rightarrow> (Inr v, c', w'))
                             | None \<Rightarrow> (Inr data, c', w'))))))"

text \<open>The \<open>catch\<close> block of \<open>request\<close>: what the call rejects with.\<close>

definition request_catch :: "thrown \<Rightarrow> thrown" where
  "request_catch error =
     (case error of
        HTTPError m r \<Rightarrow>
          (let errorData = (case fst (response_json r) of Inl _ \<Rightarrow> JObj [] | Inr d \<Rightarrow> d)
           in case get_prop errorData (js ''message'') of
                Inl e \<Rightarrow> e
              | Inr dm \<Rightarrow> APIError (if truthy dm then dm else m) (status r) (Some errorData))
      | AuthError m \<Rightarrow> AuthError m
      | _ \<Rightarrow>
          APIError (case error_message error of Some m \<Rightarrow> m | None \<Rightarrow> JStr (js ''Network error''))
            0 None)"

definition request ::
  "'s env \<Rightarrow> APIEndpoint \<Rightarrow> jsrecord option \<Rightarrow> jsrecord option \<Rightarrow> jsvalue \<Rightarrow>
   's APIClient \<Rightarrow> 's world \<Rightarrow> (thrown + jsvalue) \<times> 's APIClient \<times> 's world" where
  "request en endpoint ps q b c w =
     (case request_try en endpoint ps q b c w of
        (Inl error, c', w') \<Rightarrow> (Inl (request_catch error), c', w')
      | (Inr v, c', w') \<Rightarrow> (Inr v, c', w'))"

definition refreshAuth ::
  "'s env \<Rightarrow> 's APIClient \<Rightarrow> 's world \<Rightarrow> thrown option \<times> 's APIClient \<times> 's world" where
  "refreshAuth en c w =
     (case authCallbacks c of
        None \<Rightarrow> (Some (AuthError (js ''No auth callbacks provided'')), c, w)
      | Some _ \<Rightarrow> await_refreshTokens en c w)"

subsection \<open>generateMethods and createAPIClient\<close>









section \<open>Notions for stating the properties\<close>

text \<open>Two requests that differ in their headers at most.\<close>

definition same_payload :: "http_request \<Rightarrow> http_request \<Rightarrow> bool" where
  "same_payload r r0 \<longleftrightarrow>
     req_prefixUrl r = req_prefixUrl r0 \<and> req_input r = req_input r0 \<and>
     req_method r = req_method r0 \<and> req_searchParams r = req_searchParams r0 \<and>
     req_json r = req_json r0"

text \<open>The requests sent, among some events.\<close>

fun fetched :: "event list \<Rightarrow> http_request list" where
  "fetched [] = []"
| "fetched (Fetched r # evs) = r # fetched evs"
| "fetched (_ # evs) = fetched evs"

text \<open>
  A client as the constructor builds it, whatever its callbacks and refresh state are by
  now: the default ky instance is the one created from the configuration.
\<close>

definition constructed :: "'s APIClient \<Rightarrow> bool" where
  "constructed c \<longleftrightarrow> client c = ky_create (APIConfig.baseUrl (config c)) (APIClient.hooks c)"

section \<open>Concurrent calls\<close>

text \<open>
  Calls run as cooperative tasks on one thread: code between two \<open>await\<close>s runs without
  interruption. For the refresh state the steps that matter are: a task's \<open>beforeRetry\<close>
  hook runs for a 401 (through the ky instance that \<open>request\<close> obtained for an endpoint,
  with ky's retry count); a task calls \<open>refreshAuth\<close>; the promise of \<open>onRefreshToken\<close>
  behind promise \<open>p\<close> settles, which runs the rest of the inner function of
  \<open>refreshTokens\<close>; the callbacks are replaced. A task that called \<open>refreshTokens\<close> then
  waits for the promise it was given, or has failed at once; \<open>tasks\<close> records this,
  latest first. A callback is taken to
  return its promise without calling back into the client first, so that the synchronous
  part of \<open>refreshTokens\<close> is one step.
\<close>

datatype task_state = Waiting nat | Failed thrown

datatype 's action =
    Hook401 nat APIEndpoint nat
  | RefreshAuth nat
  | Settle nat "thrown option"
  | UpdateCallbacks "'s AuthCallbacks"

record 's system =
  sys_client :: "'s APIClient"
  sys_promises :: "pstate list"
  refreshCalls :: nat
  tasks :: "(nat \<times> task_state) list"

definition init_system :: "'s APIClient \<Rightarrow> 's system" where
  "init_system c = \<lparr>sys_client = c, sys_promises = [], refreshCalls = 0, tasks = []\<rparr>"

text \<open>Task \<open>t\<close> calls \<open>refreshTokens\<close>; \<open>refreshCalls\<close> counts the calls of \<open>onRefreshToken\<close>.\<close>

definition call_refreshTokens :: "nat \<Rightarrow> 's system \<Rightarrow> 's system" where
  "call_refreshTokens t \<sigma> =
     (case refreshTokens (sys_client \<sigma>) (sys_promises \<sigma>) of
        (a, c', ps', invoked) \<Rightarrow>
          \<lparr> sys_client = c',
            sys_promises = ps',
            refreshCalls = refreshCalls \<sigma> + (if invoked = None then 0 else 1),
            tasks = (t, case a of Inl e \<Rightarrow> Failed e | Inr p \<Rightarrow> Waiting p) # tasks \<sigma> \<rparr>)"

fun sys_step :: "'s action \<Rightarrow> 's system \<Rightarrow> 's system" where
  "sys_step (Hook401 t endpoint retryCount) \<sigma> =
     (let c = sys_client \<sigma>; k = getClientForEndpoint c endpoint in
      if ky_instance.hooks k \<noteq> APIClient.hooks c then \<sigma>
      else
        (case (if retryCount = 1 then authCallbacks c else None) of
           Some cbs \<Rightarrow> call_refreshTokens t \<sigma>
         | None \<Rightarrow> \<sigma>\<lparr>tasks := (t, Failed authFailed) # tasks \<sigma>\<rparr>))"
| "sys_step (RefreshAuth t) \<sigma> =
     (case authCallbacks (sys_client \<sigma>) of
        None \<Rightarrow> \<sigma>\<lparr>tasks := (t, Failed (AuthError (js ''No auth callbacks provided''))) # tasks \<sigma>\<rparr>
      | Some _ \<Rightarrow> call_refreshTokens t \<sigma>)"
| "sys_step (Settle p outcome) \<sigma> =
     (if promise_state (sys_promises \<sigma>) p = Pending \<and> p < length (sys_promises \<sigma>) then
        (case settle_refresh p outcome (sys_client \<sigma>) (sys_promises \<sigma>) of
           (c', ps') \<Rightarrow> \<sigma>\<lparr>sys_client := c', sys_promises := ps'\<rparr>)
      else \<sigma>)"
| "sys_step (UpdateCallbacks cbs) \<sigma> = \<sigma>\<lparr>sys_client := updateAuthCallbacks cbs (sys_client \<sigma>)\<rparr>"

definition run :: "'s action list \<Rightarrow> 's system \<Rightarrow> 's system" where
  "run acts \<sigma> = foldl (\<lambda>s a. sys_step a s) \<sigma> acts"

text \<open>The refresh operations outstanding: the promises of \<open>refreshTokens\<close> still pending.\<close>

definition outstanding :: "pstate list \<Rightarrow> nat list" where
  "outstanding ps = filter (\<lambda>p. ps ! p = Pending) [0..<length ps]"

text \<open>
  What a task gets from what it waits for: nothing yet (\<open>None\<close>) while the promise is
  pending, \<open>Some None\<close> once it is fulfilled (the hook goes on to the retry),
  \<open>Some (Some e)\<close> once it is rejected or when the call of \<open>refreshTokens\<close> failed at once
  (the hook fails the call with \<open>AuthError\<close>).
\<close>

definition awaited :: "pstate list \<Rightarrow> task_state \<Rightarrow> thrown option option" where
  "awaited ps w =
     (case w of
        Failed e \<Rightarrow> Some (Some e)
      | Waiting p \<Rightarrow>
          (case promise_state ps p of
             Pending \<Rightarrow> None
           | Fulfilled \<Rightarrow> Some None
           | Rejected e \<Rightarrow> Some (Some e)))"

text \<open>What holds of the refresh state of a client in every state the steps lead to.\<close>

definition refresh_inv :: "'s system \<Rightarrow> bool" where
  "refresh_inv \<sigma> \<longleftrightarrow>
     constructed (sys_client \<sigma>) \<and>
     (isRefreshing (sys_client \<sigma>) \<longleftrightarrow> outstanding (sys_promises \<sigma>) \<noteq> []) \<and>
     (\<forall>p \<in> set (outstanding (sys_promises \<sigma>)). refreshPromise (sys_client \<sigma>) = Some p)"

section \<open>Example data\<close>

text \<open>
  A small registry, callbacks and servers on which the properties below are instantiated.
  The outside state is the number of refreshes so far; the access token is \<open>token0\<close>,
  \<open>token1\<close>, ... accordingly. \<open>demo_env\<close> accepts \<open>token1\<close> only, \<open>locked_env\<close> answers 401
  to everything.
\<close>

definition user_schema :: schema where
  "user_schema v =
     (case v of
        JObj kvs \<Rightarrow> if map_of kvs (js ''email'') \<noteq> None then Inr v else Inl (js ''email: Required'')
      | _ \<Rightarrow> Inl (js ''Expected object''))"

definition name_schema :: schema where
  "name_schema v =
     (case v of
        JObj kvs \<Rightarrow>
          (case map_of kvs (js ''name'') of
             Some (JStr n) \<Rightarrow> Inr (JObj [(js ''name'', JStr n)])
           | _ \<Rightarrow> Inl (js ''name: Expected string''))
      | _ \<Rightarrow> Inl (js ''Expected object''))"

definition getUser :: APIEndpoint where
  "getUser =
     \<lparr> path = js ''users/:id'', method = GET, baseUrl = None, params = Some Inr, query = None,
       body = None, response = Some user_schema, tags = None, description = None \<rparr>"

definition createUser :: APIEndpoint where
  "createUser =
     \<lparr> path = js ''users'', method = POST, baseUrl = None, params = None, query = None,
       body = Some name_schema, response = Some user_schema, tags = None, description = None \<rparr>"

text \<open>An entry with neither path nor method nor response schema.\<close>

definition bare_entry :: RegistryEntry where
  "bare_entry =
     \<lparr> path = None, method = None, baseUrl = None, params = None, query = None,
       body = None, response = None, tags = None, description = None \<rparr>"

definition demo_config :: APIConfig where
  "demo_config =
     \<lparr> baseUrl = Some (js ''https://api.example.com''),
       endpoints = Some [(js ''getUser'', Some (as_entry getUser)),
                         (js ''createUser'', Some (as_entry createUser))] \<rparr>"

definition demo_callbacks :: "nat AuthCallbacks" where
  "demo_callbacks =
     \<lparr> getTokens = (\<lambda>s. Inr (Some \<lparr>accessToken = js ''token'' @ digits s, refreshToken = None\<rparr>)),
       onAuthError = Some (\<lambda>s. s),
       onRefreshToken = Some (\<lambda>s. (None, s + 1)) \<rparr>"

definition ann :: jsvalue where
  "ann = JObj [(js ''id'', JStr (js ''42'')), (js ''name'', JStr (js ''Ann'')),
               (js ''email'', JStr (js ''a@x.com''))]"

definition unauthorized :: http_response where
  "unauthorized = \<lparr>status = 401, hasBody = False, jsonBody = None, bodyUsed = False\<rparr>"

definition ok_response :: "jsvalue \<Rightarrow> http_response" where
  "ok_response v = \<lparr>status = 200, hasBody = True, jsonBody = Some v, bodyUsed = False\<rparr>"

definition demo_env :: "nat env" where
  "demo_env =
     \<lparr> fetch = (\<lambda>rq s.
         (if map_of (req_headers rq) (js ''Authorization'') = Some (js ''Bearer token1'')
          then Response (ok_response ann) else Response unauthorized, s)),
       inflight = (\<lambda>s. (None, s)) \<rparr>"

definition locked_env :: "nat env" where
  "locked_env = \<lparr>fetch = (\<lambda>rq s. (Response unauthorized, s)), inflight = (\<lambda>s. (None, s))\<rparr>"

definition open_env :: "jsvalue \<Rightarrow> nat env" where
  "open_env v = \<lparr>fetch = (\<lambda>rq s. (Response (ok_response v), s)), inflight = (\<lambda>s. (None, s))\<rparr>"

definition demo_client :: "nat APIClient" where
  "demo_client = new_APIClient demo_config (Some demo_callbacks) 0"

definition demo_world :: "nat world" where
  "demo_world = \<lparr>ext = 0, trace = [], promises = []\<rparr>"

section \<open>Facts about buildPath\<close>

lemma GetSubstitution_plain: "dollar \<notin> set t \<Longrightarrow> GetSubstitution m p f t = t"
  by (induction m p f t rule: GetSubstitution.induct) auto

lemma replace_str_plain:
  "dollar \<notin> set e \<Longrightarrow>
   replace_str s pat e = (case split_first pat s of None \<Rightarrow> s | Some (p, f) \<Rightarrow> p @ e @ f)"
  by (simp add: replace_str_def GetSubstitution_plain split: option.splits)

lemma less_16_cases:
  "n < 16 \<Longrightarrow> n \<in> {0, 1, 2, 3, 4, 5, 6, 7, 8, 9, 10, 11, 12, 13, 14, 15::nat}"
  by simp arith

lemma hexDigit_unreserved: "n < 16 \<Longrightarrow> uriUnreserved (hexDigit n)"
  by (drule less_16_cases) (auto simp: hexDigit_def uriUnreserved_def)

lemma percentOctet_chars: "c \<in> set (percentOctet b) \<Longrightarrow> uriUnreserved c \<or> c = 0x25"
  by (auto simp: percentOctet_def hexDigit_unreserved)

lemma percentCodePoint_chars: "c \<in> set (percentCodePoint cp) \<Longrightarrow> uriUnreserved c \<or> c = 0x25"
  by (auto simp: percentCodePoint_def dest: percentOctet_chars)

lemma Encode_chars: "Encode s = Inr t \<Longrightarrow> c \<in> set t \<Longrightarrow> uriUnreserved c \<or> c = 0x25"
proof (induction s arbitrary: t rule: Encode.induct)
  case 1
  then show ?case by simp
next
  case (2 c' cs)
  then show ?case
    by (auto split: if_splits list.splits sum.splits simp: map_sum_def dest: percentCodePoint_chars)
qed

lemma Encode_error: "Encode s = Inl e \<Longrightarrow> e = uriMalformed"
  by (induction s rule: Encode.induct)
     (auto split: if_splits list.splits sum.splits simp: map_sum_def)

lemma unreserved_not_special: "uriUnreserved c \<or> c = 0x25 \<Longrightarrow> c \<noteq> colon \<and> c \<noteq> dollar"
  by (auto simp: uriUnreserved_def js_def colon_def dollar_def)

lemma encodeURIComponent_no_colon: "encodeURIComponent s = Inr t \<Longrightarrow> colon \<notin> set t"
  using Encode_chars unreserved_not_special unfolding encodeURIComponent_def by blast

lemma encodeURIComponent_no_dollar: "encodeURIComponent s = Inr t \<Longrightarrow> dollar \<notin> set t"
  using Encode_chars unreserved_not_special unfolding encodeURIComponent_def by blast

lemma split_first_skip:
  "colon \<notin> set s \<Longrightarrow>
   split_first (colon # k) (s @ r) = map_option (\<lambda>(p, f). (s @ p, f)) (split_first (colon # k) r)"
  by (induction s) (auto simp: option.map_comp comp_def split_def option.map_ident)

lemma replace_skip:
  "colon \<notin> set s \<Longrightarrow> dollar \<notin> set e \<Longrightarrow>
   replace_str (s @ r) (colon # k) e = s @ replace_str r (colon # k) e"
  by (simp add: replace_str_plain split_first_skip split: option.splits)

lemma replace_here:
  "dollar \<notin> set e \<Longrightarrow> replace_str (colon # k @ r) (colon # k) e = e @ r"
  by (simp add: replace_str_plain)

lemma replace_other:
  assumes "colon \<notin> set n" "\<not> prefix k (n @ r)" "dollar \<notin> set e"
  shows "replace_str (colon # n @ r) (colon # k) e = colon # n @ replace_str r (colon # k) e"
  using assms by (simp add: replace_str_plain split_first_skip split: option.splits)

lemma fill_agree:
  "Param k \<notin> set ts \<Longrightarrow> (\<And>x. x \<noteq> k \<Longrightarrow> env' x = env x) \<Longrightarrow> fill env' ts = fill env ts"
proof (induction ts)
  case Nil
  then show ?case by (simp add: fill_def)
next
  case (Cons t ts)
  then show ?case by (cases t) (auto simp: fill_def)
qed

lemma fill_Nil: "fill env [] = []"
  by (simp add: fill_def)

lemma fill_Cons: "fill env (t # ts) = fill_segment env t @ fill env ts"
  by (simp add: fill_def)

lemma render_fill: "render segs = fill Map.empty segs"
proof (induction segs)
  case Nil
  then show ?case by (simp add: render_def fill_def)
next
  case (Cons t ts)
  then show ?case by (cases t) (simp_all add: render_def fill_def)
qed

lemma other_param_no_match:
  assumes ok: "template_ok K (Param n # ts)" and k: "k \<in> K" "k \<noteq> n"
  shows "\<not> prefix k (n @ fill env ts)"
proof
  assume "prefix k (n @ fill env ts)"
  then consider "prefix k n" | us where "k = n @ us" "prefix us (fill env ts)"
    by (auto simp: prefix_append)
  then show False
  proof cases
    case 1
    with ok k show False by simp
  next
    case 2
    with k have us: "us \<noteq> []" by auto
    with 2 have r: "fill env ts \<noteq> []" by auto
    from ok r obtain s rest where ts: "ts = Lit s # rest" and s: "s \<noteq> []" "\<forall>k\<in>K. hd s \<notin> set k"
      by (cases ts) (auto simp: fill_Nil split: segment.splits)
    from 2 us obtain zs where "fill env ts = us @ zs" by (auto simp: prefix_def)
    with ts s us have "hd us = hd s" by (cases us; cases s) (auto simp: fill_Cons)
    moreover have "hd us \<in> set k" using 2 us by simp
    ultimately show False using s k by auto
  qed
qed

lemma replace_str_Nil: "replace_str [] (colon # k) e = []"
  by (simp add: replace_str_def)

lemma replace_fill_gen:
  assumes "template_ok K segs" "k \<in> K" "env k = None"
    and "\<And>n e'. env n = Some e' \<Longrightarrow> colon \<notin> set e'" and "dollar \<notin> set e"
    and new: "env' k = Some e" and old: "\<And>x. x \<noteq> k \<Longrightarrow> env' x = env x"
  shows "replace_str (fill env segs) (colon # k) e = fill env' segs"
  using assms(1)
proof (induction segs)
  case Nil
  then show ?case by (simp add: fill_Nil replace_str_Nil)
next
  case (Cons t ts)
  show ?case
  proof (cases t)
    case (Lit s)
    with Cons assms(5) show ?thesis by (simp add: fill_Cons replace_skip)
  next
    case (Param n)
    with Cons.prems have ok: "template_ok K ts" and nc: "colon \<notin> set n" and abs: "Param n \<notin> set ts"
      by simp_all
    note IH = Cons.IH [OF ok]
    show ?thesis
    proof (cases "env n")
      case (Some e')
      with assms(3) have "n \<noteq> k" by auto
      moreover from Some assms(4) have "colon \<notin> set e'" by blast
      ultimately show ?thesis using Param Some IH assms(5) old [of n]
        by (simp add: fill_Cons replace_skip)
    next
      case None
      show ?thesis
      proof (cases "n = k")
        case True
        from abs True old have "fill env' ts = fill env ts"
          by (intro fill_agree [of k]) auto
        with Param None True assms(5) new show ?thesis
          by (simp add: fill_Cons replace_here)
      next
        case False
        with Cons.prems Param assms(2) have "\<not> prefix k (n @ fill env ts)"
          using other_param_no_match by blast
        with Param None False nc IH assms(5) old [of n] show ?thesis
          by (simp add: fill_Cons replace_other)
      qed
    qed
  qed
qed

lemma replace_fill:
  assumes "template_ok K segs" "k \<in> K" "env k = None"
    and "\<And>n e'. env n = Some e' \<Longrightarrow> colon \<notin> set e'" and "dollar \<notin> set e"
  shows "replace_str (fill env segs) (colon # k) e = fill (env(k \<mapsto> e)) segs"
  by (rule replace_fill_gen [where env = env, OF assms]) simp_all

lemma buildPath_entries_fill:
  assumes "template_ok K segs"
  shows "fst ` set ps \<subseteq> K \<Longrightarrow> distinct (map fst ps) \<Longrightarrow>
     (\<And>k. k \<in> fst ` set ps \<Longrightarrow> env k = None) \<Longrightarrow>
     (\<And>n e'. env n = Some e' \<Longrightarrow> colon \<notin> set e') \<Longrightarrow>
     (\<And>k v. (k, v) \<in> set ps \<Longrightarrow> \<not> isl (encodeURIComponent (ToString v))) \<Longrightarrow>
     buildPath_entries ps (fill env segs) = Inr (fill (env ++ param_env ps) segs)"
proof (induction ps arbitrary: env)
  case Nil
  have "env ++ param_env [] = env" by (rule ext) (simp add: param_env_def map_add_def)
  then show ?case by simp
next
  case (Cons kv ps)
  obtain k v where kv: "kv = (k, v)" by (cases kv)
  from Cons.prems(5) [of k v] kv obtain e where e: "encodeURIComponent (ToString v) = Inr e"
    by (cases "encodeURIComponent (ToString v)") auto
  then have ec: "colon \<notin> set e" and ed: "dollar \<notin> set e"
    by (simp_all add: encodeURIComponent_no_colon encodeURIComponent_no_dollar)
  from Cons.prems kv have kK: "k \<in> K" and kenv: "env k = None" by auto
  have step: "replace_str (fill env segs) (colon # k) e = fill (env(k \<mapsto> e)) segs"
  proof (rule replace_fill [where env = env and k = k and e = e, OF assms kK kenv])
    show "\<And>n e'. env n = Some e' \<Longrightarrow> colon \<notin> set e'" using Cons.prems(4) by blast
    show "dollar \<notin> set e" by (rule ed)
  qed
  from Cons.prems(2) kv have knew: "k \<notin> fst ` set ps" and dist: "distinct (map fst ps)" by auto
  have "buildPath_entries ps (fill (env(k \<mapsto> e)) segs) =
        Inr (fill (env(k \<mapsto> e) ++ param_env ps) segs)"
  proof (rule Cons.IH)
    show "fst ` set ps \<subseteq> K" using Cons.prems(1) by auto
    show "distinct (map fst ps)" by (rule dist)
    show "\<And>k'. k' \<in> fst ` set ps \<Longrightarrow> (env(k \<mapsto> e)) k' = None"
      using knew Cons.prems(3) by auto
    show "\<And>n e'. (env(k \<mapsto> e)) n = Some e' \<Longrightarrow> colon \<notin> set e'"
      using ec Cons.prems(4) by (auto split: if_splits)
    show "\<And>k' v'. (k', v') \<in> set ps \<Longrightarrow> \<not> isl (encodeURIComponent (ToString v'))"
      using Cons.prems(5) by auto
  qed
  moreover have "env(k \<mapsto> e) ++ param_env ps = env ++ param_env (kv # ps)"
  proof (rule ext)
    fix x
    from knew have "map_of ps k = None" by (simp add: map_of_eq_None_iff)
    then show "(env(k \<mapsto> e) ++ param_env ps) x = (env ++ param_env (kv # ps)) x"
      using e kv by (auto simp: map_add_def param_env_def split: option.splits sum.splits)
  qed
  ultimately show ?case using kv e step by simp
qed

lemmas eval_defs = js_def colon_def dollar_def buildPath_def replace_str_def encodeURIComponent_def
  uriUnreserved_def isLead_def isTrail_def percentCodePoint_def percentOctet_def hexDigit_def utf8_def
  surrogatePair_def render_def fill_def param_env_def uriMalformed_def

lemmas demo_defs = user_schema_def name_schema_def getUser_def createUser_def demo_config_def
  as_entry_def bare_entry_def
  demo_callbacks_def ann_def unauthorized_def ok_response_def demo_env_def locked_env_def open_env_def
  demo_client_def demo_world_def

lemmas client_defs = request_def request_try_def request_catch_def request_json_def
  request_options_def request_searchParams_def getClientForEndpoint_def getEndpointBaseUrl_def
  ky_call_def ky_request_def ky_function_def gives_up_def ky_message_def ky_create_def
  new_APIClient_def beforeRequest_def beforeRetry_def beforeError_def attach_token_def
  set_header_def notify_authError_def authFailed_def refreshTokens_def settle_refresh_def
  promise_state_def await_refreshTokens_def response_json_def URLSearchParams_toString_def
  formEncode_def formByte_def formUnreserved_def

lemma buildPath_entries_no_match:
  "(\<And>k v. (k, v) \<in> set ps \<Longrightarrow> split_first (colon # k) p = None) \<Longrightarrow>
   buildPath_entries ps p =
     (if \<forall>(k, v) \<in> set ps. \<not> isl (encodeURIComponent (ToString v)) then Inr p
      else Inl uriMalformed)"
proof (induction ps)
  case Nil
  then show ?case by simp
next
  case (Cons kv ps)
  obtain k v where kv: "kv = (k, v)" by (cases kv)
  from Cons.prems kv have none: "split_first (colon # k) p = None" by auto
  have IH: "buildPath_entries ps p =
     (if \<forall>(k, v) \<in> set ps. \<not> isl (encodeURIComponent (ToString v)) then Inr p
      else Inl uriMalformed)"
    using Cons.prems by (intro Cons.IH) auto
  show ?case
  proof (cases "encodeURIComponent (ToString v)")
    case (Inl e)
    then have "e = uriMalformed" by (simp add: encodeURIComponent_def Encode_error)
    with Inl kv show ?thesis by simp
  next
    case (Inr enc)
    with none have "replace_str p (colon # k) enc = p" by (simp add: replace_str_def)
    with Inr kv IH show ?thesis by simp
  qed
qed

text \<open>
  C4 (as amended). Building the path raises no configuration error for a placeholder
  without a key: for a parameters map none of whose keys has its placeholder \<open>:key\<close> in
  the path, \<open>buildPath\<close> returns the path as it is, the unmatched placeholder still in
  it. The only failure is the \<open>URIError\<close> of \<open>encodeURIComponent\<close> on a value whose
  string form has a lone surrogate.
\<close>

theorem buildPath_leaves_unmatched_placeholder:
  assumes "\<forall>(k, v) \<in> set ps. split_first (colon # k) p = None"
  shows "buildPath p (Some ps) =
     (if \<forall>(k, v) \<in> set ps. \<not> isl (encodeURIComponent (ToString v)) then Inr p
      else Inl uriMalformed)"
proof -
  have "buildPath_entries ps p =
     (if \<forall>(k, v) \<in> set ps. \<not> isl (encodeURIComponent (ToString v)) then Inr p
      else Inl uriMalformed)"
    using assms by (intro buildPath_entries_no_match) auto
  then show ?thesis by (simp add: buildPath_def)
qed

theorem buildPath_leaves_unmatched_placeholder_witness:
  "buildPath (js ''/users/:id'') (Some [(js ''name'', JStr (js ''Ann''))]) = Inr (js ''/users/:id'')"
  using buildPath_leaves_unmatched_placeholder
    [of "[(js ''name'', JStr (js ''Ann''))]" "js ''/users/:id''"]
  by (simp add: eval_defs)

text \<open>
  C4 as stated fails: with the placeholder \<open>:id\<close> in the path and no key \<open>id\<close> in the
  parameters, nothing is raised and the placeholder stays in the request path.
\<close>

theorem buildPath_missing_key_counterexample:
  "buildPath (js ''/users/:id'') (Some []) = Inr (js ''/users/:id'') \<and>
   buildPath (js ''/users/:id'') None = Inr (js ''/users/:id'')"
  by (simp add: buildPath_def)

text \<open>
  C6 (as amended). For a path template that is \<open>template_ok\<close> for the keys of the
  parameters map (distinct placeholders, each followed by the end of the path or by a
  character that is in no key, no key a proper prefix of another placeholder's name) and
  parameter values whose string forms are well-formed UTF-16, building the path yields
  the template with each placeholder whose name is a key replaced by the URL-encoded
  string form of the corresponding value; placeholders without a key are left.
\<close>

theorem buildPath_fills_template:
  assumes "template_ok (fst ` set ps) segs" and "distinct (map fst ps)"
    and "\<forall>(k, v) \<in> set ps. \<not> isl (encodeURIComponent (ToString v))"
  shows "buildPath (render segs) (Some ps) = Inr (fill (param_env ps) segs)"
proof -
  have "buildPath_entries ps (fill Map.empty segs) = Inr (fill (Map.empty ++ param_env ps) segs)"
    using assms by (intro buildPath_entries_fill [OF assms(1)]) auto
  then show ?thesis by (simp add: buildPath_def render_fill)
qed

theorem buildPath_fills_template_witness:
  "buildPath (js ''/users/:id/posts/:postId'')
     (Some [(js ''postId'', JNum 7), (js ''id'', JStr (js ''a b''))]) =
   Inr (js ''/users/a%20b/posts/7'')"
  using buildPath_fills_template [of "[(js ''postId'', JNum 7), (js ''id'', JStr (js ''a b''))]"
     "[Lit (js ''/users/''), Param (js ''id''), Lit (js ''/posts/''), Param (js ''postId'')]"]
  by (simp add: eval_defs)

text \<open>
  C6 as stated fails: a placeholder that occurs twice is replaced at its first occurrence
  only.
\<close>

theorem buildPath_every_occurrence_counterexample:
  "buildPath (js ''/a/:id/b/:id'') (Some [(js ''id'', JNum 7)]) = Inr (js ''/a/7/b/:id'')"
  by (simp add: eval_defs)

section \<open>Facts about request\<close>

lemma join_Cons_nonempty: "s \<noteq> [] \<Longrightarrow> join sep (s # r) \<noteq> []"
  by (cases r) auto

lemma URLSearchParams_toString_empty: "URLSearchParams_toString sp = [] \<longleftrightarrow> sp = []"
proof (cases sp)
  case Nil
  then show ?thesis by (simp add: URLSearchParams_toString_def)
next
  case (Cons a r)
  obtain n v where "a = (n, v)" by (cases a)
  with Cons show ?thesis
    by (simp add: URLSearchParams_toString_def join_Cons_nonempty js_def)
qed

lemma request_searchParams_kept:
  "request_searchParams q =
     (let kept = map (\<lambda>(k, v). (k, ToString v))
                   (filter (\<lambda>(k, v). v \<noteq> JUndefined \<and> v \<noteq> JNull)
                      (case q of None \<Rightarrow> [] | Some entries \<Rightarrow> entries))
      in if kept = [] then None else Some kept)"
  by (cases q) (auto simp: request_searchParams_def URLSearchParams_toString_empty Let_def)

lemma attach_token_payload: "same_payload (attach_token t r) r"
  by (simp add: attach_token_def same_payload_def split: option.splits)

lemma same_payload_refl: "same_payload r r"
  by (simp add: same_payload_def)

lemma same_payload_trans: "same_payload a b \<Longrightarrow> same_payload b c \<Longrightarrow> same_payload a c"
  by (simp add: same_payload_def)

lemma ky_function_effect:
  assumes "ky_function en rq c w = (res, rq', w')"
  shows "same_payload rq' rq"
    and "promises w' = promises w"
    and "trace w' = trace w \<or> trace w' = trace w @ [Fetched rq']"
  using assms
  by (auto simp: ky_function_def beforeRequest_def attach_token_payload same_payload_refl Let_def
      split: sum.splits option.splits prod.splits fetch_result.splits if_splits)

lemma notify_authError_effect:
  "trace (notify_authError c w) = trace w \<or> trace (notify_authError c w) = trace w @ [AuthErrorInvoked]"
  by (simp add: notify_authError_def split: option.splits)

lemma await_refreshTokens_effect:
  assumes "await_refreshTokens en c w = (out, c', w')"
  shows "trace w' = trace w \<or> trace w' = trace w @ [RefreshInvoked]"
  using assms
  by (auto simp: await_refreshTokens_def Let_def
      split: sum.splits option.splits prod.splits pstate.splits)

lemma beforeRetry_effect:
  assumes "beforeRetry en rq error rc c w = (res, c', w')"
  shows "\<exists>evs. trace w' = trace w @ evs \<and> fetched evs = [] \<and>
           count_list evs RefreshInvoked \<le> (if rc = 1 then 1 else 0)"
    and "\<And>r. res = Inr r \<Longrightarrow> same_payload r rq"
proof -
  show "\<exists>evs. trace w' = trace w @ evs \<and> fetched evs = [] \<and>
           count_list evs RefreshInvoked \<le> (if rc = 1 then 1 else 0)"
  proof (cases "\<exists>m r. error = HTTPError m r \<and> status r = 401")
    case False
    with assms have "w' = w"
      by (auto simp: beforeRetry_def split: thrown.splits if_splits)
    then show ?thesis by simp
  next
    case True
    then obtain m r where err: "error = HTTPError m r" "status r = 401" by blast
    show ?thesis
    proof (cases "if rc = 1 then authCallbacks c else None")
      case None
      with assms err have "w' = notify_authError c w" by (auto simp: beforeRetry_def)
      with notify_authError_effect [of c w] show ?thesis by auto
    next
      case (Some cbs)
      then have rc: "rc = 1" by (simp split: if_splits)
      obtain out c1 w1 where aw: "await_refreshTokens en c w = (out, c1, w1)"
        by (cases "await_refreshTokens en c w") auto
      from await_refreshTokens_effect [OF aw]
      have t1: "trace w1 = trace w \<or> trace w1 = trace w @ [RefreshInvoked]" .
      from assms err Some aw have "w' = w1 \<or> w' = notify_authError c1 w1"
        by (auto simp: beforeRetry_def split: option.splits sum.splits)
      with t1 notify_authError_effect [of c1 w1] rc show ?thesis by auto
    qed
  qed
next
  fix r assume "res = Inr r"
  with assms show "same_payload r rq"
    by (auto simp: beforeRetry_def attach_token_payload same_payload_refl
        split: thrown.splits if_splits option.splits sum.splits prod.splits)
qed

lemma fetched_append: "fetched (xs @ ys) = fetched xs @ fetched ys"
  by (induction xs rule: fetched.induct) auto

lemma ky_retry_effect:
  "ky_retry en k rc rq c w = (res, c', w') \<Longrightarrow>
   \<exists>evs. trace w' = trace w @ evs \<and> (\<forall>r \<in> set (fetched evs). same_payload r rq) \<and>
     count_list evs RefreshInvoked \<le> (if rc = 0 then 1 else 0)"
proof (induction en k rc rq c w arbitrary: res c' w' rule: ky_retry.induct)
  case (1 en k rc rq c w)
  obtain r1 rq1 w1 where f: "ky_function en rq c w = (r1, rq1, w1)"
    by (cases "ky_function en rq c w") auto
  from ky_function_effect [OF f]
  have p1: "same_payload rq1 rq"
    and t1: "trace w1 = trace w \<or> trace w1 = trace w @ [Fetched rq1]" by auto
  then obtain e1 where e1: "trace w1 = trace w @ e1" "\<forall>r \<in> set (fetched e1). same_payload r rq"
    "count_list e1 RefreshInvoked = 0"
    by (elim disjE) (force intro: that [of "[]"], force intro: that [of "[Fetched rq1]"])
  show ?case
  proof (cases r1)
    case (Inr r)
    with f "1.prems" have "w' = w1" by (simp add: ky_retry.simps)
    with e1 show ?thesis by auto
  next
    case (Inl error)
    show ?thesis
    proof (cases "gives_up k (rc + 1) error")
      case True
      with f Inl "1.prems" have "w' = w1" by (simp add: ky_retry.simps)
      with e1 show ?thesis by auto
    next
      case False
      obtain r2 c2 w2 where b: "beforeRetry en rq1 error (rc + 1) c w1 = (r2, c2, w2)"
        by (cases "beforeRetry en rq1 error (rc + 1) c w1") auto
      from beforeRetry_effect(1) [OF b] obtain e2 where
        e2: "trace w2 = trace w1 @ e2" "fetched e2 = []"
            "count_list e2 RefreshInvoked \<le> (if rc = 0 then 1 else 0)"
        by auto
      show ?thesis
      proof (cases r2)
        case (Inl e)
        with f \<open>r1 = Inl error\<close> False b "1.prems" have "w' = w2" by (simp add: ky_retry.simps)
        with e1 e2 show ?thesis by (auto simp: fetched_append)
      next
        case (Inr rq2)
        with f \<open>r1 = Inl error\<close> False b "1.prems"
        have rec: "ky_retry en k (rc + 1) rq2 c2 w2 = (res, c', w')" by (simp add: ky_retry.simps)
        from beforeRetry_effect(2) [OF b] Inr have p2: "same_payload rq2 rq1" by simp
        from "1.IH" [OF f [symmetric] \<open>r1 = Inl error\<close> refl False b [symmetric] Inr refl rec]
        obtain e3 where e3: "trace w' = trace w2 @ e3"
            "\<forall>r \<in> set (fetched e3). same_payload r rq2" "count_list e3 RefreshInvoked = 0"
          by auto
        from e3(2) p2 p1 have "\<forall>r \<in> set (fetched e3). same_payload r rq"
          by (blast intro: same_payload_trans)
        with e1 e2 e3 show ?thesis by (auto simp: fetched_append)
      qed
    qed
  qed
qed

lemma ky_call_effect:
  assumes "ky_call en k input options c w = (res, c', w')"
  shows "\<exists>evs. trace w' = trace w @ evs \<and>
     (\<forall>r \<in> set (fetched evs). same_payload r (ky_request k input options)) \<and>
     count_list evs RefreshInvoked \<le> 1"
proof (cases "opt_method options \<in> set (retry_methods k)")
  case True
  with assms have "ky_retry en k 0 (ky_request k input options) c w = (res, c', w')"
    by (simp add: ky_call_def)
  from ky_retry_effect [OF this] show ?thesis by auto
next
  case False
  obtain r1 rq1 w1 where f: "ky_function en (ky_request k input options) c w = (r1, rq1, w1)"
    by (cases "ky_function en (ky_request k input options) c w") auto
  with False assms have "w' = w1" by (simp add: ky_call_def)
  with ky_function_effect [OF f] show ?thesis by (elim disjE) auto
qed

lemma request_try_unprepared:
  assumes "buildPath (path endpoint) ps = Inl e \<or> request_json endpoint b = Inl e"
  shows "\<exists>e'. request_try en endpoint ps q b c w = (Inl e', c, w)"
  using assms by (auto simp: request_try_def Let_def split: sum.splits)

lemma request_effect:
  assumes "request en endpoint ps q b c w = (res, c', w')"
  shows "\<exists>evs. trace w' = trace w @ evs \<and> count_list evs RefreshInvoked \<le> 1 \<and>
     (\<forall>r \<in> set (fetched evs).
        req_searchParams r = request_searchParams q \<and> req_method r = method endpoint \<and>
        buildPath (path endpoint) ps = Inr (req_input r) \<and>
        request_json endpoint b = Inr (req_json r) \<and>
        req_prefixUrl r = prefixUrl (getClientForEndpoint c endpoint))"
proof (cases "buildPath (path endpoint) ps")
  case (Inl e)
  with assms have "w' = w" by (auto simp: request_def request_try_def)
  then show ?thesis by simp
next
  case (Inr p)
  show ?thesis
  proof (cases "request_json endpoint b")
    case (Inl e)
    with Inr assms have "w' = w" by (auto simp: request_def request_try_def)
    then show ?thesis by simp
  next
    case j: (Inr j)
    obtain r1 c1 w1 where k:
      "ky_call en (getClientForEndpoint c endpoint) p (request_options endpoint q j) c w = (r1, c1, w1)"
      by (cases "ky_call en (getClientForEndpoint c endpoint) p (request_options endpoint q j) c w") auto
    with Inr j assms have "w' = w1"
      by (auto simp: request_def request_try_def Let_def split: sum.splits option.splits)
    with ky_call_effect [OF k] Inr j show ?thesis
      by (auto simp: same_payload_def ky_request_def request_options_def)
  qed
qed


lemma triple_collapse: "x = (fst x, fst (snd x), snd (snd x))"
  by simp

lemma ky_function_success:
  assumes "ky_function en rq c w = (Inr r, rq', w')"
  shows "200 \<le> status r \<and> status r \<le> 299 \<and> \<not> bodyUsed r"
  using assms
  by (auto simp: ky_function_def Let_def
      split: sum.splits prod.splits fetch_result.splits if_splits)

lemma ky_retry_success:
  "ky_retry en k rc rq c w = (Inr r, c', w') \<Longrightarrow>
   200 \<le> status r \<and> status r \<le> 299 \<and> \<not> bodyUsed r"
proof (induction en k rc rq c w arbitrary: c' w' rule: ky_retry.induct)
  case (1 en k rc rq c w)
  obtain r1 rq1 w1 where f: "ky_function en rq c w = (r1, rq1, w1)"
    by (cases "ky_function en rq c w") auto
  show ?case
  proof (cases r1)
    case (Inr r')
    with f "1.prems" have "r' = r" by (simp add: ky_retry.simps)
    with f Inr ky_function_success show ?thesis by blast
  next
    case (Inl error)
    show ?thesis
    proof (cases "gives_up k (rc + 1) error")
      case True
      with f Inl "1.prems" show ?thesis by (simp add: ky_retry.simps)
    next
      case False
      obtain r2 c2 w2 where b: "beforeRetry en rq1 error (rc + 1) c w1 = (r2, c2, w2)"
        by (cases "beforeRetry en rq1 error (rc + 1) c w1") auto
      show ?thesis
      proof (cases r2)
        case (Inl e)
        with f \<open>r1 = Inl error\<close> False b "1.prems" show ?thesis by (simp add: ky_retry.simps)
      next
        case (Inr rq2)
        with f \<open>r1 = Inl error\<close> False b "1.prems"
        have rec: "ky_retry en k (rc + 1) rq2 c2 w2 = (Inr r, c', w')" by (simp add: ky_retry.simps)
        from "1.IH" [OF f [symmetric] \<open>r1 = Inl error\<close> refl False b [symmetric] Inr refl rec]
        show ?thesis .
      qed
    qed
  qed
qed

lemma ky_call_success:
  assumes "ky_call en k input options c w = (Inr r, c', w')"
  shows "200 \<le> status r \<and> status r \<le> 299 \<and> \<not> bodyUsed r"
proof (cases "opt_method options \<in> set (retry_methods k)")
  case True
  with assms have "ky_retry en k 0 (ky_request k input options) c w = (Inr r, c', w')"
    by (simp add: ky_call_def)
  then show ?thesis by (rule ky_retry_success)
next
  case False
  obtain r1 rq1 w1 where f: "ky_function en (ky_request k input options) c w = (r1, rq1, w1)"
    by (cases "ky_function en (ky_request k input options) c w") auto
  with False assms have "r1 = Inr r" by (simp add: ky_call_def)
  with f show ?thesis by (auto dest: ky_function_success)
qed

lemma request_after_response:
  assumes "buildPath (path endpoint) ps = Inr p" and "request_json endpoint b = Inr j"
    and "ky_call en (getClientForEndpoint c endpoint) p (request_options endpoint q j) c w =
           (Inr r, c', w')"
    and "hasBody r" and "jsonBody r = Some d" and "response endpoint = Some sch"
  shows "request en endpoint ps q b c w =
     (case sch d of Inl m \<Rightarrow> Inl (APIError (JStr m) 0 None) | Inr v \<Rightarrow> Inr v, c', w')"
proof -
  from ky_call_success [OF assms(3)] have "\<not> bodyUsed r" by simp
  with assms(4,5) have "fst (response_json r) = Inr d" by (simp add: response_json_def)
  with assms(1,2,3,6) show ?thesis
    by (simp add: request_def request_try_def request_catch_def split: sum.splits)
qed

lemma collapse_fst: "fst x = a \<Longrightarrow> x = (a, fst (snd x), snd (snd x))"
  by auto

text \<open>
  C7. Every request sent for a call of \<open>request\<close> carries as search parameters exactly
  the entries of the query object whose value is neither \<open>undefined\<close> nor \<open>null\<close>, in
  order, each as the pair of its key and the string form of its value (serialised as
  \<open>key=value\<close> by \<open>URLSearchParams_toString\<close>); when no entry is left, no search
  parameters are attached at all.
\<close>

theorem query_serialization:
  assumes "request en endpoint ps q b c w = (res, c', w')"
  shows "\<exists>evs. trace w' = trace w @ evs \<and>
     (\<forall>r \<in> set (fetched evs).
        req_searchParams r =
          (let kept = map (\<lambda>(k, v). (k, ToString v))
                        (filter (\<lambda>(k, v). v \<noteq> JUndefined \<and> v \<noteq> JNull)
                           (case q of None \<Rightarrow> [] | Some entries \<Rightarrow> entries))
           in if kept = [] then None else Some kept))"
  using request_effect [OF assms] by (auto simp: request_searchParams_kept)

text \<open>C7 on a query with a \<open>null\<close> entry, and on one with no entry left.\<close>

theorem query_serialization_witness:
  "map req_searchParams
     (fetched (trace (snd (snd (request (open_env ann) getUser (Some [(js ''id'', JNum 42)])
        (Some [(js ''page'', JNum 1), (js ''skip'', JNull), (js ''limit'', JNum 10)])
        JUndefined demo_client demo_world))))) =
   [Some [(js ''page'', js ''1''), (js ''limit'', js ''10'')]] \<and>
   map req_searchParams
     (fetched (trace (snd (snd (request (open_env ann) getUser (Some [(js ''id'', JNum 42)])
        (Some [(js ''skip'', JNull), (js ''none'', JUndefined)])
        JUndefined demo_client demo_world))))) = [None] \<and>
   URLSearchParams_toString [(js ''page'', js ''1''), (js ''limit'', js ''10 a'')] =
     js ''page=1&limit=10+a''"
  using query_serialization [of "open_env ann" getUser "Some [(js ''id'', JNum 42)]"
      "Some [(js ''page'', JNum 1), (js ''skip'', JNull), (js ''limit'', JNum 10)]"
      JUndefined demo_client demo_world, OF triple_collapse]
  by (simp add: demo_defs client_defs eval_defs ky_retry.simps Let_def)

text \<open>
  C8 (as amended). For a non-GET endpoint and a truthy body, once the path is built: with
  a body schema that rejects the body the call fails with the validation error (status
  0), the client and the world unchanged, so no request has been sent; with a body schema
  that accepts it every request sent carries the validated body; without a body schema
  every request sent carries the body as given.
\<close>

theorem body_validation:
  assumes "method endpoint \<noteq> GET" and "truthy b"
    and "buildPath (path endpoint) ps = Inr p"
    and "request en endpoint ps q b c w = (res, c', w')"
  shows "case body endpoint of
           Some sch \<Rightarrow>
             (case sch b of
                Inl m \<Rightarrow> res = Inl (APIError (JStr m) 0 None) \<and> c' = c \<and> w' = w
              | Inr validatedBody \<Rightarrow>
                  \<exists>evs. trace w' = trace w @ evs \<and>
                    (\<forall>r \<in> set (fetched evs). req_json r = Some validatedBody))
         | None \<Rightarrow>
             \<exists>evs. trace w' = trace w @ evs \<and> (\<forall>r \<in> set (fetched evs). req_json r = Some b)"
proof (cases "body endpoint")
  case None
  with assms(1,2) have "request_json endpoint b = Inr (Some b)" by (simp add: request_json_def)
  with request_effect [OF assms(4)] None show ?thesis by auto
next
  case (Some sch)
  show ?thesis
  proof (cases "sch b")
    case (Inl m)
    with Some assms(1,2) have "request_json endpoint b = Inl (ZodError m)"
      by (simp add: request_json_def)
    with assms(3,4) have "res = Inl (APIError (JStr m) 0 None) \<and> c' = c \<and> w' = w"
      by (auto simp: request_def request_try_def request_catch_def)
    with Some Inl show ?thesis by simp
  next
    case (Inr vb)
    with Some assms(1,2) have "request_json endpoint b = Inr (Some vb)"
      by (simp add: request_json_def)
    with request_effect [OF assms(4)] Some Inr show ?thesis by auto
  qed
qed

text \<open>C8 on \<open>createUser\<close> with the body \<open>{name: 123}\<close>, and with a valid body.\<close>

theorem body_validation_witness:
  "request (open_env ann) createUser None None (JObj [(js ''name'', JNum 123)])
     demo_client demo_world =
   (Inl (APIError (JStr (js ''name: Expected string'')) 0 None), demo_client, demo_world) \<and>
   map req_json
     (fetched (trace (snd (snd (request (open_env ann) createUser None None
        (JObj [(js ''name'', JStr (js ''Ann'')), (js ''age'', JNum 7)]) demo_client demo_world))))) =
   [Some (JObj [(js ''name'', JStr (js ''Ann''))])]"
proof
  have "case body createUser of
          Some sch \<Rightarrow>
            (case sch (JObj [(js ''name'', JNum 123)]) of
               Inl m \<Rightarrow>
                 fst (request (open_env ann) createUser None None (JObj [(js ''name'', JNum 123)])
                        demo_client demo_world) = Inl (APIError (JStr m) 0 None) \<and>
                 fst (snd (request (open_env ann) createUser None None
                        (JObj [(js ''name'', JNum 123)]) demo_client demo_world)) = demo_client \<and>
                 snd (snd (request (open_env ann) createUser None None
                        (JObj [(js ''name'', JNum 123)]) demo_client demo_world)) = demo_world
             | Inr validatedBody \<Rightarrow> True)
        | None \<Rightarrow> True"
    using body_validation [of createUser "JObj [(js ''name'', JNum 123)]" None "js ''users''"
        "open_env ann" None demo_client demo_world, OF _ _ _ triple_collapse]
    by (simp add: createUser_def name_schema_def buildPath_def js_def split: sum.splits)
  then show "request (open_env ann) createUser None None (JObj [(js ''name'', JNum 123)])
       demo_client demo_world =
     (Inl (APIError (JStr (js ''name: Expected string'')) 0 None), demo_client, demo_world)"
    by (simp add: createUser_def name_schema_def js_def prod_eq_iff)
next
  show "map req_json
     (fetched (trace (snd (snd (request (open_env ann) createUser None None
        (JObj [(js ''name'', JStr (js ''Ann'')), (js ''age'', JNum 7)]) demo_client demo_world))))) =
   [Some (JObj [(js ''name'', JStr (js ''Ann''))])]"
    by (simp add: demo_defs client_defs eval_defs ky_retry.simps Let_def)
qed

text \<open>
  C8 as stated fails for a falsy body: \<open>0\<close> is supplied and fails the body schema, yet the
  guard \<open>body && ...\<close> skips validation and the request is sent, without a body.
\<close>

theorem falsy_body_counterexample:
  "name_schema (JNum 0) = Inl (js ''Expected object'') \<and>
   fst (request (open_env ann) createUser None None (JNum 0) demo_client demo_world) = Inr ann \<and>
   map req_json
     (fetched (trace (snd (snd (request (open_env ann) createUser None None (JNum 0)
        demo_client demo_world))))) = [None]"
  by (simp add: demo_defs client_defs eval_defs ky_retry.simps Let_def)

section \<open>Facts about the generated members\<close>









text \<open>
  C3. For an endpoint with a response schema, when the HTTP call resolves with a response
  (then its status is 2xx) whose parsed JSON body is \<open>d\<close>: if the schema rejects \<open>d\<close> the
  call rejects with the validation error, and otherwise it returns the value the schema
  returns; \<open>d\<close> itself is never returned unvalidated.
\<close>

theorem response_validation:
  assumes "buildPath (path endpoint) ps = Inr p" and "request_json endpoint b = Inr j"
    and "ky_call en (getClientForEndpoint c endpoint) p (request_options endpoint q j) c w =
           (Inr r, c', w')"
    and "hasBody r" and "jsonBody r = Some d" and "response endpoint = Some sch"
  shows "200 \<le> status r \<and> status r \<le> 299 \<and>
     request en endpoint ps q b c w =
       (case sch d of Inl m \<Rightarrow> Inl (APIError (JStr m) 0 None) | Inr v \<Rightarrow> Inr v, c', w')"
  using ky_call_success [OF assms(3)] request_after_response [OF assms] by simp

text \<open>C3 on \<open>getUser\<close>, with a response missing \<open>email\<close> and with a complete one.\<close>

theorem response_validation_witness:
  "fst (request (open_env (JObj [(js ''id'', JStr (js ''42'')), (js ''name'', JStr (js ''Ann''))]))
          getUser (Some [(js ''id'', JNum 42)]) None JUndefined demo_client demo_world) =
     Inl (APIError (JStr (js ''email: Required'')) 0 None) \<and>
   fst (request (open_env ann) getUser (Some [(js ''id'', JNum 42)]) None JUndefined
          demo_client demo_world) = Inr ann"
proof
  let ?bad = "JObj [(js ''id'', JStr (js ''42'')), (js ''name'', JStr (js ''Ann''))]"
  have k: "fst (ky_call (open_env ?bad) (getClientForEndpoint demo_client getUser) (js ''users/42'')
              (request_options getUser None None) demo_client demo_world) = Inr (ok_response ?bad)"
    by (simp add: demo_defs client_defs eval_defs ky_retry.simps Let_def)
  show "fst (request (open_env ?bad) getUser (Some [(js ''id'', JNum 42)]) None JUndefined
          demo_client demo_world) = Inl (APIError (JStr (js ''email: Required'')) 0 None)"
    using response_validation [of getUser "Some [(js ''id'', JNum 42)]" "js ''users/42''"
        JUndefined None "open_env ?bad" demo_client None demo_world "ok_response ?bad" _ _ ?bad
        user_schema, OF _ _ collapse_fst [OF k]]
    by (simp add: getUser_def user_schema_def ok_response_def request_json_def eval_defs)
next
  show "fst (request (open_env ann) getUser (Some [(js ''id'', JNum 42)]) None JUndefined
          demo_client demo_world) = Inr ann"
    by (simp add: demo_defs client_defs eval_defs ky_retry.simps Let_def)
qed

text \<open>
  C9. Once the path is built, a request body rejected by the body schema and a response
  body rejected by the response schema both make the call reject with an \<open>APIError\<close>
  whose status is 0 and whose message is the validation error's: the \<open>catch\<close> block maps
  a \<open>ZodError\<close> exactly as it maps the \<open>TypeError\<close> of a failed \<open>fetch\<close>.
\<close>

theorem validation_failure_has_status_0:
  assumes "buildPath (path endpoint) ps = Inr p"
  shows "(truthy b \<and> method endpoint \<noteq> GET \<and> body endpoint = Some sch \<and> sch b = Inl m \<longrightarrow>
            request en endpoint ps q b c w = (Inl (APIError (JStr m) 0 None), c, w)) \<and>
         (request_json endpoint b = Inr j \<and>
          ky_call en (getClientForEndpoint c endpoint) p (request_options endpoint q j) c w =
            (Inr r, c', w') \<and>
          hasBody r \<and> jsonBody r = Some d \<and> response endpoint = Some sch' \<and> sch' d = Inl m \<longrightarrow>
            request en endpoint ps q b c w = (Inl (APIError (JStr m) 0 None), c', w')) \<and>
         error_status (APIError (JStr m) 0 None) = Some 0 \<and>
         request_catch (ZodError m) = request_catch (TypeError m)"
proof (intro conjI impI)
  assume "truthy b \<and> method endpoint \<noteq> GET \<and> body endpoint = Some sch \<and> sch b = Inl m"
  then have "request_json endpoint b = Inl (ZodError m)" by (simp add: request_json_def)
  with assms show "request en endpoint ps q b c w = (Inl (APIError (JStr m) 0 None), c, w)"
    by (simp add: request_def request_try_def request_catch_def)
next
  assume a: "request_json endpoint b = Inr j \<and>
          ky_call en (getClientForEndpoint c endpoint) p (request_options endpoint q j) c w =
            (Inr r, c', w') \<and>
          hasBody r \<and> jsonBody r = Some d \<and> response endpoint = Some sch' \<and> sch' d = Inl m"
  then show "request en endpoint ps q b c w = (Inl (APIError (JStr m) 0 None), c', w')"
    using request_after_response [OF assms, of b j en c q w r c' w' d sch'] by simp
next
  show "error_status (APIError (JStr m) 0 None) = Some 0" by simp
next
  show "request_catch (ZodError m) = request_catch (TypeError m)"
    by (simp add: request_catch_def)
qed

text \<open>
  C9 on \<open>createUser\<close> with the body \<open>{name: 123}\<close>, and on \<open>getUser\<close> with a response
  missing \<open>email\<close>.
\<close>

theorem validation_failure_has_status_0_witness:
  "request (open_env ann) createUser None None (JObj [(js ''name'', JNum 123)])
     demo_client demo_world =
   (Inl (APIError (JStr (js ''name: Expected string'')) 0 None), demo_client, demo_world) \<and>
   fst (request (open_env (JObj [(js ''id'', JStr (js ''42''))])) getUser
          (Some [(js ''id'', JNum 42)]) None JUndefined demo_client demo_world) =
     Inl (APIError (JStr (js ''email: Required'')) 0 None) \<and>
   error_status (APIError (JStr (js ''email: Required'')) 0 None) = Some 0"
proof (intro conjI)
  show "request (open_env ann) createUser None None (JObj [(js ''name'', JNum 123)])
     demo_client demo_world =
   (Inl (APIError (JStr (js ''name: Expected string'')) 0 None), demo_client, demo_world)"
    using validation_failure_has_status_0 [of createUser None "js ''users''"
        "JObj [(js ''name'', JNum 123)]" name_schema "js ''name: Expected string''"
        "open_env ann" None demo_client demo_world]
    by (simp add: createUser_def name_schema_def buildPath_def js_def)
next
  let ?bad = "JObj [(js ''id'', JStr (js ''42''))]"
  let ?call = "ky_call (open_env ?bad) (getClientForEndpoint demo_client getUser) (js ''users/42'')
                 (request_options getUser None None) demo_client demo_world"
  have k: "fst ?call = Inr (ok_response ?bad)"
    by (simp add: demo_defs client_defs eval_defs ky_retry.simps Let_def)
  have p: "buildPath (path getUser) (Some [(js ''id'', JNum 42)]) = Inr (js ''users/42'')"
    by (simp add: getUser_def eval_defs)
  have j: "request_json getUser JUndefined = Inr None"
    by (simp add: request_json_def)
  have r: "hasBody (ok_response ?bad)" "jsonBody (ok_response ?bad) = Some ?bad"
    "response getUser = Some user_schema" "user_schema ?bad = Inl (js ''email: Required'')"
    by (simp_all add: ok_response_def getUser_def user_schema_def js_def)
  from validation_failure_has_status_0 [OF p, where b = JUndefined and j = None
      and en = "open_env ?bad" and c = demo_client and q = None and w = demo_world
      and r = "ok_response ?bad" and c' = "fst (snd ?call)" and w' = "snd (snd ?call)"
      and d = ?bad and sch' = user_schema and m = "js ''email: Required''"]
    j collapse_fst [OF k] r
  show "fst (request (open_env ?bad) getUser (Some [(js ''id'', JNum 42)]) None JUndefined
          demo_client demo_world) = Inl (APIError (JStr (js ''email: Required'')) 0 None)"
    by simp
next
  show "error_status (APIError (JStr (js ''email: Required'')) 0 None) = Some 0" by simp
qed





lemma notify_authError_no_refresh:
  "\<exists>evs. trace (notify_authError c w) = trace w @ evs \<and> RefreshInvoked \<notin> set evs \<and> fetched evs = []"
  using notify_authError_effect [of c w] by auto



section \<open>Facts about concurrent calls\<close>

lemma mem_outstanding: "p \<in> set (outstanding ps) \<longleftrightarrow> p < length ps \<and> ps ! p = Pending"
  by (auto simp: outstanding_def)

lemma distinct_outstanding: "distinct (outstanding ps)"
  by (simp add: outstanding_def)

lemma outstanding_append:
  "outstanding (ps @ [x]) = outstanding ps @ (if x = Pending then [length ps] else [])"
proof -
  have "filter (\<lambda>p. (ps @ [x]) ! p = Pending) [0..<length ps] =
        filter (\<lambda>p. ps ! p = Pending) [0..<length ps]"
    by (rule filter_cong) (auto simp: nth_append)
  then show ?thesis by (simp add: outstanding_def)
qed

lemma outstanding_update:
  assumes "x \<noteq> Pending"
  shows "outstanding (ps[p := x]) = filter (\<lambda>q. q \<noteq> p) (outstanding ps)"
proof -
  have eq: "(ps[p := x] ! q = Pending) = (q \<noteq> p \<and> ps ! q = Pending)" if "q < length ps" for q
  proof (cases "p < length ps")
    case True
    with assms show ?thesis by (auto simp: nth_list_update)
  next
    case False
    with that show ?thesis by (auto simp: list_update_beyond)
  qed
  have "filter (\<lambda>q. ps[p := x] ! q = Pending) [0..<length ps] =
        filter (\<lambda>q. q \<noteq> p \<and> ps ! q = Pending) [0..<length ps]"
    by (rule filter_cong) (simp_all add: eq)
  then show ?thesis by (simp add: outstanding_def conj_commute)
qed

lemma all_same_length:
  assumes "distinct xs" and "\<forall>x \<in> set xs. x = a"
  shows "length xs \<le> 1"
proof (cases xs)
  case Nil
  then show ?thesis by simp
next
  case (Cons x ys)
  with assms show ?thesis by (cases ys) auto
qed

lemma refresh_inv_one:
  assumes "refresh_inv \<sigma>"
  shows "length (outstanding (sys_promises \<sigma>)) \<le> 1"
proof (cases "refreshPromise (sys_client \<sigma>)")
  case None
  with assms have "outstanding (sys_promises \<sigma>) = []"
    by (cases "outstanding (sys_promises \<sigma>)") (auto simp: refresh_inv_def)
  then show ?thesis by simp
next
  case (Some p)
  with assms have "\<forall>x \<in> set (outstanding (sys_promises \<sigma>)). x = p"
    by (auto simp: refresh_inv_def)
  with distinct_outstanding show ?thesis by (rule all_same_length)
qed

lemma constructed_hooks:
  "constructed c \<Longrightarrow> ky_instance.hooks (getClientForEndpoint c e) = APIClient.hooks c"
  by (simp add: constructed_def getClientForEndpoint_def ky_create_def Let_def)

lemma constructed_prefixUrl:
  "constructed c \<Longrightarrow> prefixUrl (getClientForEndpoint c e) = getEndpointBaseUrl c e"
  by (auto simp: constructed_def getClientForEndpoint_def ky_create_def Let_def)

lemma refresh_inv_init: "refresh_inv (init_system (new_APIClient cfg cbs h))"
  by (simp add: refresh_inv_def init_system_def new_APIClient_def constructed_def outstanding_def)

lemma refresh_inv_call:
  assumes "refresh_inv \<sigma>"
  shows "refresh_inv (call_refreshTokens t \<sigma>)"
proof (cases "authCallbacks (sys_client \<sigma>)")
  case None
  with assms show ?thesis
    by (simp add: call_refreshTokens_def refreshTokens_def refresh_inv_def)
next
  case (Some cbs)
  show ?thesis
  proof (cases "isRefreshing (sys_client \<sigma>)")
    case True
    with assms obtain p where "p \<in> set (outstanding (sys_promises \<sigma>))"
      by (cases "outstanding (sys_promises \<sigma>)") (auto simp: refresh_inv_def)
    with assms have "refreshPromise (sys_client \<sigma>) = Some p" by (simp add: refresh_inv_def)
    with Some True assms show ?thesis
      by (simp add: call_refreshTokens_def refreshTokens_def refresh_inv_def)
  next
    case False
    with assms have idle: "outstanding (sys_promises \<sigma>) = []" by (simp add: refresh_inv_def)
    from Some False idle assms show ?thesis
      by (cases "onRefreshToken cbs")
         (simp_all add: call_refreshTokens_def refreshTokens_def refresh_inv_def Let_def
            outstanding_append constructed_def)
  qed
qed

lemma refresh_inv_settle:
  assumes "refresh_inv \<sigma>"
  shows "refresh_inv (sys_step (Settle p outcome) \<sigma>)"
proof (cases "promise_state (sys_promises \<sigma>) p = Pending \<and> p < length (sys_promises \<sigma>)")
  case False
  with assms show ?thesis by auto
next
  case True
  then have mem: "p \<in> set (outstanding (sys_promises \<sigma>))"
    by (auto simp: mem_outstanding promise_state_def split: if_splits)
  with assms have rp: "refreshPromise (sys_client \<sigma>) = Some p" by (simp add: refresh_inv_def)
  with assms have "\<forall>x \<in> set (outstanding (sys_promises \<sigma>)). x = p"
    by (auto simp: refresh_inv_def)
  then have "filter (\<lambda>q. q \<noteq> p) (outstanding (sys_promises \<sigma>)) = []"
    unfolding filter_empty_conv by blast
  moreover have "(case outcome of None \<Rightarrow> Fulfilled | Some e \<Rightarrow> Rejected e) \<noteq> Pending"
    by (cases outcome) auto
  ultimately have "outstanding ((sys_promises \<sigma>)[p := case outcome of None \<Rightarrow> Fulfilled
      | Some e \<Rightarrow> Rejected e]) = []"
    by (simp add: outstanding_update)
  with True assms show ?thesis
    by (simp add: settle_refresh_def refresh_inv_def constructed_def)
qed

lemma refresh_inv_step:
  assumes "refresh_inv \<sigma>"
  shows "refresh_inv (sys_step a \<sigma>)"
proof (cases a)
  case (Hook401 t e rc)
  with assms refresh_inv_call [OF assms, of t] show ?thesis
    by (auto simp: Let_def refresh_inv_def split: option.splits if_splits)
next
  case (RefreshAuth t)
  with assms refresh_inv_call [OF assms, of t] show ?thesis
    by (auto simp: refresh_inv_def split: option.splits)
next
  case (Settle p outcome)
  with assms show ?thesis by (simp only: refresh_inv_settle)
next
  case (UpdateCallbacks cbs)
  with assms show ?thesis
    by (simp add: refresh_inv_def updateAuthCallbacks_def constructed_def)
qed

lemma run_Nil: "run [] \<sigma> = \<sigma>"
  by (simp add: run_def)

lemma run_Cons: "run (a # acts) \<sigma> = run acts (sys_step a \<sigma>)"
  by (simp add: run_def)

lemma run_append: "run (xs @ ys) \<sigma> = run ys (run xs \<sigma>)"
  by (simp add: run_def)

lemma refresh_inv_run: "refresh_inv \<sigma> \<Longrightarrow> refresh_inv (run acts \<sigma>)"
  by (induction acts arbitrary: \<sigma>) (simp_all add: run_Nil run_Cons refresh_inv_step)





lemma call_count:
  assumes "refresh_inv \<sigma>"
  shows "refreshCalls (call_refreshTokens t \<sigma>) + length (outstanding (sys_promises \<sigma>)) =
         refreshCalls \<sigma> + length (outstanding (sys_promises (call_refreshTokens t \<sigma>)))"
proof (cases "authCallbacks (sys_client \<sigma>)")
  case None
  then show ?thesis by (simp add: call_refreshTokens_def refreshTokens_def)
next
  case (Some cbs)
  show ?thesis
  proof (cases "isRefreshing (sys_client \<sigma>)")
    case True
    with assms obtain p where "p \<in> set (outstanding (sys_promises \<sigma>))"
      by (cases "outstanding (sys_promises \<sigma>)") (auto simp: refresh_inv_def)
    with assms have "refreshPromise (sys_client \<sigma>) = Some p" by (simp add: refresh_inv_def)
    with Some True show ?thesis
      by (simp add: call_refreshTokens_def refreshTokens_def Let_def)
  next
    case False
    with Some show ?thesis
      by (cases "onRefreshToken cbs")
         (simp_all add: call_refreshTokens_def refreshTokens_def Let_def outstanding_append)
  qed
qed

lemma step_count:
  assumes "refresh_inv \<sigma>" and "\<forall>p outcome. a \<noteq> Settle p outcome"
  shows "refreshCalls (sys_step a \<sigma>) + length (outstanding (sys_promises \<sigma>)) =
         refreshCalls \<sigma> + length (outstanding (sys_promises (sys_step a \<sigma>)))"
proof (cases a)
  case (Hook401 t e rc)
  with call_count [OF assms(1), of t] show ?thesis
    by (auto simp: Let_def split: option.splits)
next
  case (RefreshAuth t)
  with call_count [OF assms(1), of t] show ?thesis by (auto split: option.splits)
next
  case (Settle p outcome)
  with assms(2) show ?thesis by simp
next
  case (UpdateCallbacks cbs)
  then show ?thesis by simp
qed

lemma run_count:
  "refresh_inv \<sigma> \<Longrightarrow> \<forall>p outcome. Settle p outcome \<notin> set acts \<Longrightarrow>
   refreshCalls (run acts \<sigma>) + length (outstanding (sys_promises \<sigma>)) =
   refreshCalls \<sigma> + length (outstanding (sys_promises (run acts \<sigma>)))"
proof (induction acts arbitrary: \<sigma>)
  case Nil
  then show ?case by (simp add: run_Nil)
next
  case (Cons a acts)
  from Cons.prems(2) have ns: "\<forall>p outcome. a \<noteq> Settle p outcome"
    and nr: "\<forall>p outcome. Settle p outcome \<notin> set acts" by auto
  from Cons.prems(1) have "refresh_inv (sys_step a \<sigma>)" by (rule refresh_inv_step)
  from Cons.IH [OF this nr] step_count [OF Cons.prems(1) ns] show ?case
    by (simp add: run_Cons)
qed

lemmas system_defs = run_def init_system_def call_refreshTokens_def refreshTokens_def
  settle_refresh_def promise_state_def outstanding_def awaited_def
  getClientForEndpoint_def getEndpointBaseUrl_def ky_create_def new_APIClient_def
  updateAuthCallbacks_def authFailed_def




text \<open>
  C10 (as amended). In every state that the steps of concurrent calls on one client lead
  to, the ky instance that \<open>request\<close> obtains for an endpoint, whatever its base URL, has the
  effective base URL of the endpoint as prefix and the hooks object of the client; and in
  any steps of concurrent calls from there, on whatever endpoints, among which no refresh
  settles, \<open>onRefreshToken\<close> is invoked at most once in all.
\<close>

theorem endpoint_clients_share_refresh:
  assumes reach: "\<sigma> = run acts (init_system (new_APIClient cfg cbs0 h))"
  shows "ky_instance.hooks (getClientForEndpoint (sys_client \<sigma>) e) = APIClient.hooks (sys_client \<sigma>) \<and>
     prefixUrl (getClientForEndpoint (sys_client \<sigma>) e) = getEndpointBaseUrl (sys_client \<sigma>) e \<and>
     ((\<forall>p outcome. Settle p outcome \<notin> set acts') \<longrightarrow>
        refreshCalls (run acts' \<sigma>) \<le> refreshCalls \<sigma> + 1)"
proof (intro conjI impI)
  have inv: "refresh_inv \<sigma>" unfolding reach by (intro refresh_inv_run refresh_inv_init)
  then have con: "constructed (sys_client \<sigma>)" by (simp add: refresh_inv_def)
  from con show "ky_instance.hooks (getClientForEndpoint (sys_client \<sigma>) e) = APIClient.hooks (sys_client \<sigma>)"
    by (rule constructed_hooks)
  from con show "prefixUrl (getClientForEndpoint (sys_client \<sigma>) e) = getEndpointBaseUrl (sys_client \<sigma>) e"
    by (rule constructed_prefixUrl)
  assume ns: "\<forall>p outcome. Settle p outcome \<notin> set acts'"
  have "refresh_inv (run acts' \<sigma>)" using inv by (rule refresh_inv_run)
  then have "length (outstanding (sys_promises (run acts' \<sigma>))) \<le> 1" by (rule refresh_inv_one)
  with run_count [OF inv ns] show "refreshCalls (run acts' \<sigma>) \<le> refreshCalls \<sigma> + 1" by simp
qed

text \<open>C10 for two endpoints with different base URLs.\<close>

theorem endpoint_clients_share_refresh_witness:
  "let other = getUser\<lparr>Endpoint.baseUrl := Some (js ''https://files.example.com'')\<rparr>;
       \<sigma> = init_system demo_client
   in prefixUrl (getClientForEndpoint (sys_client \<sigma>) other) = Some (js ''https://files.example.com'') \<and>
      prefixUrl (getClientForEndpoint (sys_client \<sigma>) getUser) = Some (js ''https://api.example.com'') \<and>
      ky_instance.hooks (getClientForEndpoint (sys_client \<sigma>) other) =
        ky_instance.hooks (getClientForEndpoint (sys_client \<sigma>) getUser) \<and>
      refreshCalls (run [Hook401 1 getUser 1, Hook401 2 other 1, Hook401 3 getUser 2] \<sigma>) = 1"
proof -
  define other where "other = getUser\<lparr>Endpoint.baseUrl := Some (js ''https://files.example.com'')\<rparr>"
  define \<sigma> where "\<sigma> = init_system demo_client"
  define acts' :: "nat action list" where
    "acts' = [Hook401 1 getUser 1, Hook401 2 other 1, Hook401 3 getUser 2]"
  define \<sigma>' where "\<sigma>' = run acts' \<sigma>"
  have reach: "\<sigma> = run [] (init_system (new_APIClient demo_config (Some demo_callbacks) 0))"
    by (simp add: \<sigma>_def demo_client_def run_def)
  have calls: "refreshCalls \<sigma> = 0"
    by (simp_all add: \<sigma>_def system_defs)
  have urls: "getEndpointBaseUrl (sys_client \<sigma>) other = Some (js ''https://files.example.com'')"
    "getEndpointBaseUrl (sys_client \<sigma>) getUser = Some (js ''https://api.example.com'')"
    by (simp_all add: \<sigma>_def other_def system_defs demo_defs js_def)
  have once: "1 \<le> refreshCalls \<sigma>'"
    by (simp add: \<sigma>'_def acts'_def \<sigma>_def other_def system_defs demo_defs Let_def js_def)
  have ns: "\<forall>p outcome. Settle p outcome \<notin> set acts'" by (simp add: acts'_def)
  from endpoint_clients_share_refresh [OF reach, of other acts'] ns
  have a: "ky_instance.hooks (getClientForEndpoint (sys_client \<sigma>) other) = APIClient.hooks (sys_client \<sigma>)"
    "prefixUrl (getClientForEndpoint (sys_client \<sigma>) other) = getEndpointBaseUrl (sys_client \<sigma>) other"
    "refreshCalls \<sigma>' \<le> refreshCalls \<sigma> + 1"
    unfolding \<sigma>'_def by blast+
  from endpoint_clients_share_refresh [OF reach, of getUser "[]"]
  have b: "ky_instance.hooks (getClientForEndpoint (sys_client \<sigma>) getUser) = APIClient.hooks (sys_client \<sigma>)"
    "prefixUrl (getClientForEndpoint (sys_client \<sigma>) getUser) = getEndpointBaseUrl (sys_client \<sigma>) getUser"
    by blast+
  from a(3) once calls have "refreshCalls \<sigma>' = 1" by simp
  with a(1,2) b urls show ?thesis
    unfolding Let_def other_def [symmetric] \<sigma>_def [symmetric] acts'_def [symmetric]
      \<sigma>'_def [symmetric] by simp
qed

text \<open>
  C10 as stated fails: of two calls on endpoints with different base URLs, the second gets
  its 401 after the refresh that the first started has settled, and \<open>onRefreshToken\<close> is
  invoked twice.
\<close>

theorem refresh_per_settled_window_counterexample:
  "prefixUrl (getClientForEndpoint demo_client getUser) \<noteq>
     prefixUrl (getClientForEndpoint demo_client
        (getUser\<lparr>Endpoint.baseUrl := Some (js ''https://files.example.com'')\<rparr>)) \<and>
   refreshCalls (run [Hook401 1 getUser 1, Settle 0 None,
                      Hook401 2 (getUser\<lparr>Endpoint.baseUrl := Some (js ''https://files.example.com'')\<rparr>) 1]
                   (init_system demo_client)) = 2"
  by (simp add: system_defs demo_defs Let_def js_def)

end
